theory Spec2Isabelle
  imports Main
begin

section \<open>Python strings\<close>

text \<open>
  A Python \<open>str\<close> is a sequence of Unicode code points; the typographic quotes and the
  no-break space that \<open>clean_and_parse_json\<close> rewrites lie outside Latin-1 bytes, so a
  string is modelled as a list of code points (natural numbers), not as a \<open>char list\<close>.
  \<open>ustr\<close> reads an ASCII literal into that type.
\<close>

type_synonym pystr = "nat list"

definition ustr :: "string \<Rightarrow> pystr" where
  "ustr s = map of_char s"

text \<open>
  \<open>str.isspace\<close> on one code point, which is also what \<open>str.strip()\<close> removes and what
  \<open>\s\<close> matches in a \<open>str\<close> pattern of the \<open>re\<close> module: U+0009..U+000D, U+001C..U+001F,
  U+0020, U+0085, U+00A0, U+1680, U+2000..U+200A, U+2028, U+2029, U+202F, U+205F, U+3000.
\<close>

definition py_isspace :: "nat \<Rightarrow> bool" where
  "py_isspace c \<longleftrightarrow>
     (9 \<le> c \<and> c \<le> 13) \<or> (28 \<le> c \<and> c \<le> 32) \<or> c = 133 \<or> c = 160 \<or> c = 5760 \<or>
     (8192 \<le> c \<and> c \<le> 8202) \<or> c = 8232 \<or> c = 8233 \<or> c = 8239 \<or> c = 8287 \<or> c = 12288"

definition py_strip :: "pystr \<Rightarrow> pystr" where
  "py_strip s = rev (dropWhile py_isspace (rev (dropWhile py_isspace s)))"

definition startswith :: "pystr \<Rightarrow> pystr \<Rightarrow> bool" where
  "startswith s p \<longleftrightarrow> take (length p) s = p"

definition endswith :: "pystr \<Rightarrow> pystr \<Rightarrow> bool" where
  "endswith s p \<longleftrightarrow> length p \<le> length s \<and> drop (length s - length p) s = p"

text \<open>\<open>s.find(c)\<close> and \<open>s.rfind(c)\<close> for a one-character \<open>c\<close>: an index, or \<open>-1\<close>.\<close>

definition py_find :: "pystr \<Rightarrow> nat \<Rightarrow> int" where
  "py_find s c = (if c \<in> set s then int (length (takeWhile (\<lambda>x. x \<noteq> c) s)) else - 1)"

definition py_rfind :: "pystr \<Rightarrow> nat \<Rightarrow> int" where
  "py_rfind s c =
     (if c \<in> set s then int (length s) - 1 - int (length (takeWhile (\<lambda>x. x \<noteq> c) (rev s)))
      else - 1)"

text \<open>\<open>s[i:j]\<close> for \<open>0 \<le> i\<close> and \<open>0 \<le> j\<close> (the only slices the program takes).\<close>

definition py_slice :: "pystr \<Rightarrow> int \<Rightarrow> int \<Rightarrow> pystr" where
  "py_slice s i j = take (nat j - nat i) (drop (nat i) s)"

text \<open>\<open>s.replace(a, b)\<close> for one-character \<open>a\<close> and \<open>b\<close>.\<close>

definition py_replace :: "nat \<Rightarrow> nat \<Rightarrow> pystr \<Rightarrow> pystr" where
  "py_replace a b s = map (\<lambda>c. if c = a then b else c) s"

text \<open>\<open>text.split('\n\n')\<close>: the blocks between non-overlapping blank-line separators,
  scanned from the left; never an empty list.\<close>

fun split_blank :: "pystr \<Rightarrow> pystr \<Rightarrow> pystr list" where
  "split_blank cur (a # b # r) =
     (if a = 10 \<and> b = 10 then cur # split_blank [] r else split_blank (cur @ [a]) (b # r))"
| "split_blank cur [a] = [cur @ [a]]"
| "split_blank cur [] = [cur]"

definition py_split_nn :: "pystr \<Rightarrow> pystr list" where
  "py_split_nn s = split_blank [] s"

section \<open>JSON values and the decoder of the \<open>json\<close> module\<close>

text \<open>
  The exceptions of the model. \<open>JSONDecodeError\<close> carries the message of the decoder (the
  position is dropped: the program only tests the message). \<open>ValueError\<close> is the plain
  \<open>ValueError\<close> that \<open>int\<close> raises on a literal of more than \<open>sys.get_int_max_str_digits()\<close>
  digits. \<open>RecursionError\<close> is raised by the decoder when arrays and objects are nested
  deeper than the interpreter allows at the call. \<open>UnicodeEncodeError\<close> is raised by \<open>print\<close>
  on a text with a surrogate code point (the standard output encodes as UTF-8).
  \<open>Exception\<close> is any other exception of a library, with its \<open>str(e)\<close>.
  \<open>Fuel_exhausted\<close> is not a Python exception: it marks the end of the step budget of the
  model's decoder, and lemma \<open>json_loads_fuel\<close> shows that \<open>json_loads\<close> never returns it.
\<close>

datatype json_error =
    Expecting_value
  | Expecting_property_name
  | Expecting_colon_delimiter
  | Expecting_comma_delimiter
  | Extra_data
  | Unterminated_string
  | Invalid_control_character
  | Invalid_escape
  | Invalid_uXXXX_escape
  | Unexpected_BOM

datatype pyexn =
    JSONDecodeError json_error
  | ValueError
  | RecursionError
  | UnicodeEncodeError
  | IndexError
  | Exception pystr
  | Fuel_exhausted

text \<open>
  A Python \<open>float\<close> is kept as the literal text handed to \<open>float()\<close> (or one of the three
  constants of the decoder): the program never computes with it.
\<close>

datatype pyfloat = Float_lit pystr | Float_nan | Float_inf | Float_neg_inf

datatype json =
    JNull
  | JBool bool
  | JInt int
  | JFloat pyfloat
  | JString pystr
  | JArray "json list"
  | JObject "(pystr \<times> json) list"

text \<open>\<open>d[k] = v\<close> on an insertion-ordered dictionary, and \<open>dict(pairs)\<close>.\<close>

fun dict_set :: "'k \<Rightarrow> 'v \<Rightarrow> ('k \<times> 'v) list \<Rightarrow> ('k \<times> 'v) list" where
  "dict_set k v [] = [(k, v)]"
| "dict_set k v (p # d) = (if fst p = k then (k, v) # d else p # dict_set k v d)"

definition py_dict :: "('k \<times> 'v) list \<Rightarrow> ('k \<times> 'v) list" where
  "py_dict pairs = foldl (\<lambda>d p. dict_set (fst p) (snd p) d) [] pairs"

definition json_ws :: "nat \<Rightarrow> bool" where
  "json_ws c \<longleftrightarrow> c = 32 \<or> c = 9 \<or> c = 10 \<or> c = 13"

definition skip_ws :: "pystr \<Rightarrow> pystr" where
  "skip_ws s = dropWhile json_ws s"

definition is_digit :: "nat \<Rightarrow> bool" where
  "is_digit c \<longleftrightarrow> 48 \<le> c \<and> c \<le> 57"

definition hex_value :: "nat \<Rightarrow> nat option" where
  "hex_value c =
     (if 48 \<le> c \<and> c \<le> 57 then Some (c - 48)
      else if 65 \<le> c \<and> c \<le> 70 then Some (c - 55)
      else if 97 \<le> c \<and> c \<le> 102 then Some (c - 87)
      else None)"

text \<open>\<open>_decode_uXXXX\<close>: the four hexadecimal digits after \<open>\u\<close>.\<close>

definition decode_uXXXX :: "pystr \<Rightarrow> nat option" where
  "decode_uXXXX s =
     (case s of
        a # b # c # d # _ \<Rightarrow>
          (case (hex_value a, hex_value b, hex_value c, hex_value d) of
             (Some x, Some y, Some z, Some w) \<Rightarrow> Some (((x * 16 + y) * 16 + z) * 16 + w)
           | _ \<Rightarrow> None)
      | _ \<Rightarrow> None)"

text \<open>The table \<open>BACKSLASH\<close> of the decoder.\<close>

definition backslash :: "nat \<Rightarrow> nat option" where
  "backslash c =
     (if c = 34 then Some 34 else if c = 92 then Some 92 else if c = 47 then Some 47
      else if c = 98 then Some 8 else if c = 102 then Some 12 else if c = 110 then Some 10
      else if c = 114 then Some 13 else if c = 116 then Some 9 else None)"

text \<open>
  \<open>scanstring\<close> (strict): the input starts just after the opening quote; the result is the
  decoded string and the input after the closing quote.
\<close>

function scanstring :: "pystr \<Rightarrow> pystr \<Rightarrow> pyexn + (pystr \<times> pystr)" where
  "scanstring [] acc = Inl (JSONDecodeError Unterminated_string)"
| "scanstring (c # r) acc =
     (if c = 34 then Inr (acc, r)
      else if c = 92 then
        (case r of
           [] \<Rightarrow> Inl (JSONDecodeError Unterminated_string)
         | esc # r1 \<Rightarrow>
             if esc \<noteq> 117 then
               (case backslash esc of
                  None \<Rightarrow> Inl (JSONDecodeError Invalid_escape)
                | Some ch \<Rightarrow> scanstring r1 (acc @ [ch]))
             else
               (case decode_uXXXX r1 of
                  None \<Rightarrow> Inl (JSONDecodeError Invalid_uXXXX_escape)
                | Some uni \<Rightarrow>
                    if 55296 \<le> uni \<and> uni \<le> 56319 \<and> take 2 (drop 4 r1) = [92, 117] then
                      (case decode_uXXXX (drop 6 r1) of
                         None \<Rightarrow> Inl (JSONDecodeError Invalid_uXXXX_escape)
                       | Some uni2 \<Rightarrow>
                           if 56320 \<le> uni2 \<and> uni2 \<le> 57343 then
                             scanstring (drop 10 r1)
                               (acc @ [65536 + ((uni - 55296) * 1024 + (uni2 - 56320))])
                           else scanstring (drop 4 r1) (acc @ [uni]))
                    else scanstring (drop 4 r1) (acc @ [uni])))
      else if c \<le> 31 then Inl (JSONDecodeError Invalid_control_character)
      else scanstring r (acc @ [c]))"
  by pat_completeness auto
termination
  by (relation "measure (\<lambda>(s, acc). length s)") auto

text \<open>
  \<open>NUMBER_RE\<close>, \<open>(-?(?:0|[1-9][0-9]*))(\.[0-9]+)?([eE][-+]?[0-9]+)?\<close>, matched at the head
  of the input: the three groups (an absent group is the empty string) and the input left.
\<close>

definition match_frac :: "pystr \<Rightarrow> pystr \<times> pystr" where
  "match_frac s =
     (case s of
        c # r \<Rightarrow>
          if c = 46 \<and> takeWhile is_digit r \<noteq> []
          then (c # takeWhile is_digit r, dropWhile is_digit r) else ([], s)
      | [] \<Rightarrow> ([], s))"

definition match_exp :: "pystr \<Rightarrow> pystr \<times> pystr" where
  "match_exp s =
     (case s of
        c # r \<Rightarrow>
          if c = 101 \<or> c = 69 then
            (let sg = (case r of x # _ \<Rightarrow> if x = 45 \<or> x = 43 then [x] else [] | [] \<Rightarrow> []);
                 r1 = drop (length sg) r
             in if takeWhile is_digit r1 \<noteq> []
                then (c # sg @ takeWhile is_digit r1, dropWhile is_digit r1) else ([], s))
          else ([], s)
      | [] \<Rightarrow> ([], s))"

definition match_integer :: "pystr \<Rightarrow> (pystr \<times> pystr) option" where
  "match_integer s =
     (let sg = (case s of c # _ \<Rightarrow> if c = 45 then [c] else [] | [] \<Rightarrow> []);
          s1 = drop (length sg) s
      in case s1 of
           [] \<Rightarrow> None
         | d # r \<Rightarrow>
             if d = 48 then Some (sg @ [d], r)
             else if 49 \<le> d \<and> d \<le> 57
             then Some (sg @ d # takeWhile is_digit r, dropWhile is_digit r)
             else None)"

definition match_number :: "pystr \<Rightarrow> (pystr \<times> pystr \<times> pystr \<times> pystr) option" where
  "match_number s =
     (case match_integer s of
        None \<Rightarrow> None
      | Some (integer, s1) \<Rightarrow>
          (case match_frac s1 of (frac, s2) \<Rightarrow>
             (case match_exp s2 of (exp, s3) \<Rightarrow> Some (integer, frac, exp, s3))))"

text \<open>
  \<open>int(integer)\<close>. Since the limit on integer string conversion, a literal of more than
  \<open>sys.int_info.default_max_str_digits = 4300\<close> digits raises a plain \<open>ValueError\<close>
  (the source needs Python 3.12 or later: it nests a backslash in an f-string expression).
\<close>

definition int_max_str_digits :: nat where
  "int_max_str_digits = 4300"

definition digits_value :: "pystr \<Rightarrow> nat" where
  "digits_value ds = foldl (\<lambda>a d. 10 * a + (d - 48)) 0 ds"

definition parse_int :: "pystr \<Rightarrow> pyexn + int" where
  "parse_int integer =
     (let neg = (integer \<noteq> [] \<and> hd integer = 45);
          ds = (if neg then tl integer else integer)
      in if int_max_str_digits < length ds then Inl ValueError
         else Inr (if neg then - int (digits_value ds) else int (digits_value ds)))"

text \<open>
  \<open>scan_once\<close>, \<open>JSONObject\<close> and \<open>JSONArray\<close> of the decoder, on the input that is left.
  \<open>StopIteration\<close> is always turned into "Expecting value" by the nearest caller, so
  \<open>scan_once\<close> raises that error itself.

  The second argument is the number of nested arrays and objects that the interpreter
  still allows: the decoder enters a recursive call at each \<open>[\<close> and \<open>{\<close> and raises
  \<open>RecursionError\<close> when none is left. \<open>json_loads\<close> starts with the limit \<open>lim\<close> of the call,
  which depends on the interpreter and on the stack in use, so it is a parameter.

  The first argument bounds the steps of the model: it goes down by one at each nested
  value and at each further member, and \<open>json_loads\<close> starts with the length of the text,
  which is always enough.
\<close>

fun scan_once :: "nat \<Rightarrow> nat \<Rightarrow> pystr \<Rightarrow> pyexn + (json \<times> pystr)"
  and array_loop :: "nat \<Rightarrow> nat \<Rightarrow> json list \<Rightarrow> pystr \<Rightarrow> pyexn + (json \<times> pystr)"
  and object_loop ::
    "nat \<Rightarrow> nat \<Rightarrow> (pystr \<times> json) list \<Rightarrow> pystr \<Rightarrow> pyexn + (json \<times> pystr)"
where
  "scan_once n d s =
     (case s of
        [] \<Rightarrow> Inl (JSONDecodeError Expecting_value)
      | c # r \<Rightarrow>
          if c = 34 then
            (case scanstring r [] of
               Inl e \<Rightarrow> Inl e
             | Inr (str, r1) \<Rightarrow> Inr (JString str, r1))
          else if c = 123 then
            (case d of
               0 \<Rightarrow> Inl RecursionError
             | Suc d1 \<Rightarrow>
                 (case skip_ws r of
                    [] \<Rightarrow> Inl (JSONDecodeError Expecting_property_name)
                  | q # r1 \<Rightarrow>
                      if q = 125 then Inr (JObject [], r1)
                      else if q = 34 then
                        (case n of 0 \<Rightarrow> Inl Fuel_exhausted | Suc m \<Rightarrow> object_loop m d1 [] r1)
                      else Inl (JSONDecodeError Expecting_property_name)))
          else if c = 91 then
            (case d of
               0 \<Rightarrow> Inl RecursionError
             | Suc d1 \<Rightarrow>
                 (case skip_ws r of
                    [] \<Rightarrow> Inl (JSONDecodeError Expecting_value)
                  | q # r1 \<Rightarrow>
                      if q = 93 then Inr (JArray [], r1)
                      else
                        (case n of
                           0 \<Rightarrow> Inl Fuel_exhausted
                         | Suc m \<Rightarrow> array_loop m d1 [] (q # r1))))
          else if c = 110 \<and> take 4 s = [110, 117, 108, 108] then Inr (JNull, drop 4 s)
          else if c = 116 \<and> take 4 s = [116, 114, 117, 101] then Inr (JBool True, drop 4 s)
          else if c = 102 \<and> take 5 s = [102, 97, 108, 115, 101] then Inr (JBool False, drop 5 s)
          else
            (case match_number s of
               Some (integer, frac, exp, r1) \<Rightarrow>
                 if frac \<noteq> [] \<or> exp \<noteq> [] then Inr (JFloat (Float_lit (integer @ frac @ exp)), r1)
                 else
                   (case parse_int integer of
                      Inl e \<Rightarrow> Inl e
                    | Inr i \<Rightarrow> Inr (JInt i, r1))
             | None \<Rightarrow>
                 if c = 78 \<and> take 3 s = [78, 97, 78] then Inr (JFloat Float_nan, drop 3 s)
                 else if c = 73 \<and> take 8 s = [73, 110, 102, 105, 110, 105, 116, 121]
                 then Inr (JFloat Float_inf, drop 8 s)
                 else if c = 45 \<and> take 9 s = [45, 73, 110, 102, 105, 110, 105, 116, 121]
                 then Inr (JFloat Float_neg_inf, drop 9 s)
                 else Inl (JSONDecodeError Expecting_value)))"
| "array_loop n d vals s =
     (case scan_once n d s of
        Inl e \<Rightarrow> Inl e
      | Inr (v, s1) \<Rightarrow>
          (case skip_ws s1 of
             [] \<Rightarrow> Inl (JSONDecodeError Expecting_comma_delimiter)
           | q # s2 \<Rightarrow>
               if q = 93 then Inr (JArray (vals @ [v]), s2)
               else if q \<noteq> 44 then Inl (JSONDecodeError Expecting_comma_delimiter)
               else
                 (case n of
                    0 \<Rightarrow> Inl Fuel_exhausted
                  | Suc m \<Rightarrow> array_loop m d (vals @ [v]) (skip_ws s2))))"
| "object_loop n d pairs s =
     (case scanstring s [] of
        Inl e \<Rightarrow> Inl e
      | Inr (key, s1) \<Rightarrow>
          (case skip_ws s1 of
             [] \<Rightarrow> Inl (JSONDecodeError Expecting_colon_delimiter)
           | c # s2 \<Rightarrow>
               if c \<noteq> 58 then Inl (JSONDecodeError Expecting_colon_delimiter)
               else
                 (case scan_once n d (skip_ws s2) of
                    Inl e \<Rightarrow> Inl e
                  | Inr (v, s3) \<Rightarrow>
                      (case skip_ws s3 of
                         [] \<Rightarrow> Inl (JSONDecodeError Expecting_comma_delimiter)
                       | q # s4 \<Rightarrow>
                           if q = 125 then Inr (JObject (py_dict (pairs @ [(key, v)])), s4)
                           else if q \<noteq> 44 then Inl (JSONDecodeError Expecting_comma_delimiter)
                           else
                             (case skip_ws s4 of
                                [] \<Rightarrow> Inl (JSONDecodeError Expecting_property_name)
                              | k # s5 \<Rightarrow>
                                  if k \<noteq> 34 then Inl (JSONDecodeError Expecting_property_name)
                                  else
                                    (case n of
                                       0 \<Rightarrow> Inl Fuel_exhausted
                                     | Suc m \<Rightarrow> object_loop m d (pairs @ [(key, v)]) s5))))))"

text \<open>\<open>json.loads(s)\<close> for a \<open>str\<close>, with \<open>lim\<close> levels of nesting allowed: the BOM check,
  then \<open>JSONDecoder.decode\<close>.\<close>

definition json_loads :: "nat \<Rightarrow> pystr \<Rightarrow> pyexn + json" where
  "json_loads lim s =
     (if startswith s [65279] then Inl (JSONDecodeError Unexpected_BOM)
      else
        (case scan_once (length s) lim (skip_ws s) of
           Inl e \<Rightarrow> Inl e
         | Inr (obj, r) \<Rightarrow>
             if skip_ws r \<noteq> [] then Inl (JSONDecodeError Extra_data) else Inr obj))"

section \<open>\<open>clean_and_parse_json\<close>\<close>

definition is_ascii_alpha :: "nat \<Rightarrow> bool" where
  "is_ascii_alpha c \<longleftrightarrow> (65 \<le> c \<and> c \<le> 90) \<or> (97 \<le> c \<and> c \<le> 122)"

definition backticks :: pystr where
  "backticks = [96, 96, 96]"

text \<open>The text after the match of \<open>```[a-zA-Z]*\s*\<close> at its head (\<open>text[tag_end_match.end():]\<close>).\<close>

definition drop_fence_tag :: "pystr \<Rightarrow> pystr" where
  "drop_fence_tag text = dropWhile py_isspace (dropWhile is_ascii_alpha (drop 3 text))"

text \<open>Step 3: typographic quotes to straight quotes, no-break spaces to spaces, and
  \<open>re.sub(r'[\x00-\x1F\x7F]', '', json_content)\<close>.\<close>

definition is_control :: "nat \<Rightarrow> bool" where
  "is_control c \<longleftrightarrow> c \<le> 31 \<or> c = 127"

definition clean_content :: "pystr \<Rightarrow> pystr" where
  "clean_content json_content =
     (let json_content =
            py_replace 8217 39 (py_replace 8216 39 (py_replace 8221 34 (py_replace 8220 34 json_content)));
          json_content = py_replace 160 32 (py_replace 160 32 json_content)
      in filter (\<lambda>c. \<not> is_control c) json_content)"

text \<open>\<open>re.sub(r',\s*([}\]])', r'\1', json_content)\<close>: each comma that is followed, after any
  whitespace, by a closing bracket is removed together with that whitespace.\<close>

function fix_trailing_commas :: "pystr \<Rightarrow> pystr" where
  "fix_trailing_commas [] = []"
| "fix_trailing_commas (c # r) =
     (if c = 44 then
        (case dropWhile py_isspace r of
           [] \<Rightarrow> c # fix_trailing_commas r
         | d # r1 \<Rightarrow>
             if d = 125 \<or> d = 93 then d # fix_trailing_commas r1 else c # fix_trailing_commas r)
      else c # fix_trailing_commas r)"
  by pat_completeness auto
termination
proof (relation "measure length")
  fix c x21 :: nat and r x22 :: pystr
  assume "dropWhile py_isspace r = x21 # x22"
  then have "length (x21 # x22) \<le> length r"
    by (metis length_dropWhile_le)
  then show "(x22, c # r) \<in> measure length" by simp
qed auto

text \<open>
  The test \<open>"Expecting ',' delimiter" in str(e) or "Extra data" in str(e)\<close>: \<open>str(e)\<close> is the
  message followed by the line, column and character numbers, and only these two messages
  of the decoder contain one of the two phrases.
\<close>

definition is_comma_or_extra :: "json_error \<Rightarrow> bool" where
  "is_comma_or_extra e \<longleftrightarrow> e = Expecting_comma_delimiter \<or> e = Extra_data"

text \<open>
  The second \<open>print\<close> of the handler writes the first 200 characters of the content. The
  standard output encodes as UTF-8, which has no encoding for a surrogate code point
  (U+D800..U+DFFF): on such a snippet \<open>print\<close> raises \<open>UnicodeEncodeError\<close>. The first
  \<open>print\<close> writes the message of the decoder, which quotes characters with \<open>repr\<close> and
  can always be encoded.
\<close>

definition is_surrogate :: "nat \<Rightarrow> bool" where
  "is_surrogate c \<longleftrightarrow> 55296 \<le> c \<and> c \<le> 57343"

definition printable :: "pystr \<Rightarrow> bool" where
  "printable s = list_all (\<lambda>c. \<not> is_surrogate c) s"

text \<open>
  \<open>clean_and_parse_json(text, is_list)\<close> for a \<open>str\<close>, called where \<open>json.loads\<close> may nest
  \<open>lim\<close> levels deep: \<open>Inr None\<close> is the returned \<open>None\<close>, \<open>Inr (Some v)\<close> a returned value,
  \<open>Inl e\<close> an exception that leaves the function. Only \<open>json.JSONDecodeError\<close> is caught,
  and the two diagnostic \<open>print\<close> calls run inside the handler, before anything is returned.
\<close>

definition clean_and_parse_json :: "nat \<Rightarrow> pystr \<Rightarrow> bool \<Rightarrow> pyexn + json option" where
  "clean_and_parse_json lim text0 is_list =
     (if text0 = [] then Inr None
      else
        let text = py_strip text0;
            text = (if startswith text backticks then drop_fence_tag text else text);
            text = (if endswith text backticks then take (length text - 3) text else text);
            text = py_strip text;
            start_char = (if is_list then 91 else 123);
            end_char = (if is_list then 93 else 125);
            start_index = py_find text start_char;
            end_index = py_rfind text end_char
        in if start_index = - 1 \<or> end_index = - 1 \<or> end_index < start_index then Inr None
           else
             let json_content = clean_content (py_slice text start_index (end_index + 1))
             in case json_loads lim json_content of
                  Inr v \<Rightarrow> Inr (Some v)
                | Inl (JSONDecodeError e) \<Rightarrow>
                    if \<not> printable (take 200 json_content) then Inl UnicodeEncodeError
                    else if is_comma_or_extra e then
                      (case json_loads lim (fix_trailing_commas json_content) of
                         Inr v \<Rightarrow> Inr (Some v)
                       | Inl (JSONDecodeError _) \<Rightarrow> Inr None
                       | Inl x \<Rightarrow> Inl x)
                    else Inr None
                | Inl x \<Rightarrow> Inl x)"

section \<open>\<open>process_files\<close>: context size, explanation and quiz\<close>

definition MAX_API_CONTEXT_SIZE :: nat where
  "MAX_API_CONTEXT_SIZE = 8000"

definition truncation_marker :: pystr where
  "truncation_marker = [10, 10] @ ustr ''[...Content truncated for API processing efficiency]''"

text \<open>Lines 280-281: the combined text that goes into both prompts.\<close>

definition truncate_context :: "pystr \<Rightarrow> pystr" where
  "truncate_context combined_text =
     (if MAX_API_CONTEXT_SIZE < length combined_text
      then take MAX_API_CONTEXT_SIZE combined_text @ truncation_marker
      else combined_text)"

text \<open>
  Truth value of a decoded value. A float literal is false when \<open>float()\<close> gives zero: its
  digits are all zero, or its value \<open>m * 10^e\<close> is at most \<open>2^-1075\<close> and rounds to zero.
\<close>

definition float_lit_is_zero :: "pystr \<Rightarrow> bool" where
  "float_lit_is_zero lit =
     (let mant = takeWhile (\<lambda>c. c \<noteq> 101 \<and> c \<noteq> 69) lit;
          ex = drop (Suc (length mant)) lit;
          m = digits_value (filter is_digit mant);
          fl = length (filter is_digit (dropWhile (\<lambda>c. c \<noteq> 46) mant));
          ev = int (digits_value (filter is_digit ex));
          e = (if ex \<noteq> [] \<and> hd ex = 45 then - ev else ev) - int fl
      in m = 0 \<or> (e < 0 \<and> m * 2 ^ 1075 \<le> 10 ^ nat (- e)))"

fun py_truthy :: "json \<Rightarrow> bool" where
  "py_truthy JNull = False"
| "py_truthy (JBool b) = b"
| "py_truthy (JInt i) = (i \<noteq> 0)"
| "py_truthy (JFloat (Float_lit lit)) = (\<not> float_lit_is_zero lit)"
| "py_truthy (JFloat _) = True"
| "py_truthy (JString s) = (s \<noteq> [])"
| "py_truthy (JArray xs) = (xs \<noteq> [])"
| "py_truthy (JObject d) = (d \<noteq> [])"

text \<open>\<open>d.get(k)\<close> followed by a truth test: a missing key gives \<open>None\<close>, which is false.\<close>

definition get_truthy :: "(pystr \<times> json) list \<Rightarrow> pystr \<Rightarrow> bool" where
  "get_truthy d k = (case map_of d k of None \<Rightarrow> False | Some v \<Rightarrow> py_truthy v)"

text \<open>Lines 332-337: the explanation used when the coercer gave \<open>None\<close>.\<close>

definition fallback_topic :: pystr where
  "fallback_topic = ustr ''Study Material Analysis (Failed to Parse JSON)''"

definition placeholder :: pystr where
  "placeholder = ustr ''Unable to generate explanation or parse response.''"

definition fallback_content :: "pystr option \<Rightarrow> pystr list" where
  "fallback_content explanation_text =
     (case explanation_text of
        None \<Rightarrow> [placeholder]
      | Some t \<Rightarrow> if t \<noteq> [] then take 5 (py_split_nn t) else [placeholder])"

definition fallback_explanation :: "pystr option \<Rightarrow> json" where
  "fallback_explanation explanation_text =
     JObject [(ustr ''topic'', JString fallback_topic),
              (ustr ''content'', JArray (map JString (fallback_content explanation_text)))]"

text \<open>Lines 326-340. The completion text is \<open>None\<close> when the API call failed.\<close>

definition explanation_data :: "nat \<Rightarrow> pystr option \<Rightarrow> pyexn + json option" where
  "explanation_data lim explanation_text =
     (case explanation_text of
        None \<Rightarrow> Inr None
      | Some t \<Rightarrow> if t \<noteq> [] then clean_and_parse_json lim t False else Inr None)"

definition explanation_for_storage :: "nat \<Rightarrow> pystr option \<Rightarrow> pyexn + json" where
  "explanation_for_storage lim explanation_text =
     (case explanation_data lim explanation_text of
        Inl e \<Rightarrow> Inl e
      | Inr parsed \<Rightarrow>
          let data = (case parsed of None \<Rightarrow> fallback_explanation explanation_text | Some d \<Rightarrow> d)
          in Inr (case data of JObject _ \<Rightarrow> JArray [data] | _ \<Rightarrow> data))"

text \<open>Lines 383-390: what the caller does with a truthy value that is not a list.\<close>

datatype unwrap_branch = Is_list | Key_quiz | Key_questions | Wrap_single

definition unwrap_branch_of :: "json \<Rightarrow> unwrap_branch" where
  "unwrap_branch_of v =
     (case v of
        JArray _ \<Rightarrow> Is_list
      | JObject d \<Rightarrow>
          (case map_of d (ustr ''quiz'') of
             Some (JArray _) \<Rightarrow> Key_quiz
           | _ \<Rightarrow>
               (case map_of d (ustr ''questions'') of
                  Some (JArray _) \<Rightarrow> Key_questions
                | _ \<Rightarrow> Wrap_single))
      | _ \<Rightarrow> Wrap_single)"

definition unwrap_quiz :: "json \<Rightarrow> json list" where
  "unwrap_quiz v =
     (case v of
        JArray xs \<Rightarrow> xs
      | JObject d \<Rightarrow>
          (case map_of d (ustr ''quiz'') of
             Some (JArray xs) \<Rightarrow> xs
           | _ \<Rightarrow>
               (case map_of d (ustr ''questions'') of
                  Some (JArray xs) \<Rightarrow> xs
                | _ \<Rightarrow> [v]))
      | _ \<Rightarrow> [v])"

text \<open>Lines 395-400: the test a question must pass to be kept.\<close>

definition valid_question :: "json \<Rightarrow> bool" where
  "valid_question q =
     (case q of
        JObject d \<Rightarrow>
          get_truthy d (ustr ''question'') \<and> get_truthy d (ustr ''options'') \<and>
          get_truthy d (ustr ''correctAnswer'') \<and>
          (case map_of d (ustr ''options'') of
             Some (JArray opts) \<Rightarrow> 4 \<le> length opts
           | _ \<Rightarrow> False)
      | _ \<Rightarrow> False)"

text \<open>Lines 375-404: \<open>quiz_data\<close> before the fallback (\<open>None\<close> when it was never assigned).\<close>

definition quiz_data :: "nat \<Rightarrow> pystr option \<Rightarrow> pyexn + json list option" where
  "quiz_data lim quiz_text =
     (case quiz_text of
        None \<Rightarrow> Inr None
      | Some t \<Rightarrow>
          if t = [] then Inr None
          else
            (case clean_and_parse_json lim t True of
               Inl e \<Rightarrow> Inl e
             | Inr None \<Rightarrow> Inr None
             | Inr (Some temp_quiz_data) \<Rightarrow>
                 if py_truthy temp_quiz_data
                 then Inr (Some (filter valid_question (unwrap_quiz temp_quiz_data)))
                 else Inr None))"

definition fallback_question :: json where
  "fallback_question =
     JObject [(ustr ''question'',
                 JString (ustr ''Quiz generation failed (Error: Not enough valid questions generated).'')),
              (ustr ''options'',
                 JArray [JString (ustr ''A) Please check the content.''),
                         JString (ustr ''B) Try re-uploading the file.''),
                         JString (ustr ''C) The material might be too short or complex.''),
                         JString (ustr ''D) All of the above.'')]),
              (ustr ''correctAnswer'', JString (ustr ''D''))]"

text \<open>
  \<open>quiz_status\<close>: \<open>Status_success\<close> is the string "Success"; \<open>Status_failed n\<close> is the string
  "Failed to generate enough valid questions (parsed only n). Explanation generated
  successfully.", written when the fallback question replaces the quiz.
\<close>

datatype quiz_status = Status_success | Status_failed nat

record response =
  explanation :: json
  quiz :: "json list"
  quiz_status :: quiz_status

text \<open>Lines 406-415: the final quiz and its status.\<close>

definition final_quiz :: "json list option \<Rightarrow> json list \<times> quiz_status" where
  "final_quiz qd =
     (case qd of
        None \<Rightarrow> ([fallback_question], Status_failed 0)
      | Some qs \<Rightarrow>
          if length qs < 5 then ([fallback_question], Status_failed (length qs))
          else (qs, Status_success))"

text \<open>
  \<open>process_files\<close> from the two completions on: the body of the successful response, or the
  exception that the outermost handler turns into the 500 response.
\<close>

definition process_completions ::
  "nat \<Rightarrow> pystr option \<Rightarrow> pystr option \<Rightarrow> pyexn + response" where
  "process_completions lim explanation_text quiz_text =
     (case explanation_for_storage lim explanation_text of
        Inl e \<Rightarrow> Inl e
      | Inr ex \<Rightarrow>
          (case quiz_data lim quiz_text of
             Inl e \<Rightarrow> Inl e
           | Inr qd \<Rightarrow>
               Inr \<lparr> explanation = ex, quiz = fst (final_quiz qd),
                     quiz_status = snd (final_quiz qd) \<rparr>))"

section \<open>\<open>extract_text_from_file\<close>\<close>

text \<open>
  An uploaded file is its name and its bytes, as \<open>file.read()\<close> gives them. The libraries
  are parameters: \<open>decode\<close> is \<open>bytes.decode("utf-8", errors="ignore")\<close>, and \<open>PdfReader\<close> gives,
  for the bytes of a PDF, the pages of the reader, each page being the text that
  \<open>extract_text()\<close> returns (the empty string when it returns nothing). Either may raise
  instead: \<open>Inl e\<close> stands for an exception \<open>e\<close> derived from \<open>Exception\<close>, with the message
  \<open>str(e)\<close>; for \<open>PdfReader\<close> the outer \<open>Inl\<close> is an exception while the reader is built or
  its pages are counted, the inner one an exception while one page is read.

  \<open>py_lower\<close> is \<open>str.lower()\<close> on A to Z; other characters are left as they are (no other
  character has p, d, f, t or x as its lower case). \<open>after_last_dot\<close> is
  \<open>filename.rsplit(".", 1)[1]\<close>, which raises \<open>IndexError\<close> on a name without a dot.
  \<open>str_nat\<close> is \<open>str\<close> on a natural number.
\<close>

record upload =
  filename :: pystr
  file_bytes :: "nat list"

definition MAX_TEXT_SIZE_BYTES :: nat where
  "MAX_TEXT_SIZE_BYTES = 5 * 1024 * 1024"

definition MAX_PDF_PAGES :: nat where
  "MAX_PDF_PAGES = 1000"

definition ALLOWED_EXTENSIONS :: "pystr list" where
  "ALLOWED_EXTENSIONS = [ustr ''pdf'', ustr ''txt'']"

definition py_lower :: "pystr \<Rightarrow> pystr" where
  "py_lower s = map (\<lambda>c. if 65 \<le> c \<and> c \<le> 90 then c + 32 else c) s"

definition after_last_dot :: "pystr \<Rightarrow> pyexn + pystr" where
  "after_last_dot s =
     (if 46 \<in> set s then Inr (rev (takeWhile (\<lambda>c. c \<noteq> 46) (rev s))) else Inl IndexError)"

definition allowed_file :: "pystr \<Rightarrow> bool" where
  "allowed_file name \<longleftrightarrow>
     46 \<in> set name \<and>
     (case after_last_dot name of
        Inr e \<Rightarrow> py_lower e \<in> set ALLOWED_EXTENSIONS
      | Inl _ \<Rightarrow> False)"

function str_nat :: "nat \<Rightarrow> pystr" where
  "str_nat n = (if n < 10 then [48 + n] else str_nat (n div 10) @ [48 + n mod 10])"
  by pat_completeness auto
termination
  by (relation "measure id") auto

definition txt_failed :: "pystr \<Rightarrow> pystr \<Rightarrow> pystr" where
  "txt_failed name msg = ustr ''[TXT parsing failed for '' @ name @ ustr ''. Error: '' @ msg @ ustr '']''"

definition pdf_failed :: "pystr \<Rightarrow> pystr \<Rightarrow> pystr" where
  "pdf_failed name msg =
     ustr ''[PDF parsing failed for '' @ name
       @ ustr ''. The file may be corrupt or non-standard. Error: '' @ msg @ ustr '']''"

definition no_text_layer :: "pystr \<Rightarrow> pystr" where
  "no_text_layer name =
     ustr ''[Text extraction from '' @ name
       @ ustr '' failed. File may be a scanned image without a text layer.]''"

definition no_pdf_support :: pystr where
  "no_pdf_support = ustr ''[PDF file uploaded but PyPDF2 library not installed for text extraction.]''"

definition unsupported_type :: "pystr \<Rightarrow> pystr" where
  "unsupported_type extension = ustr ''[File type .'' @ extension @ ustr '' is not supported.]''"

definition extraction_truncated :: pystr where
  "extraction_truncated = [10] @ ustr ''[Content truncated due to size limit during extraction]''"

definition pages_note :: "nat \<Rightarrow> nat \<Rightarrow> pystr" where
  "pages_note total_pages pages_to_process =
     [10] @ ustr ''[Note: PDF has '' @ str_nat total_pages @ ustr '' pages, processed first ''
       @ str_nat pages_to_process @ ustr '' pages]''"

fun pages_loop :: "(pystr + pystr) list \<Rightarrow> pystr \<Rightarrow> pystr" where
  "pages_loop [] text = text"
| "pages_loop (page # pages) text =
     (case page of
        Inl page_e \<Rightarrow> pages_loop pages text
      | Inr page_text \<Rightarrow>
          (let text = (if page_text \<noteq> [] then text @ page_text @ [10] else text)
           in if MAX_API_CONTEXT_SIZE * 2 < length text
              then take (MAX_API_CONTEXT_SIZE * 2) text @ extraction_truncated
              else pages_loop pages text))"

definition extract_text_from_file ::
  "bool \<Rightarrow> (nat list \<Rightarrow> pystr + pystr) \<Rightarrow> (nat list \<Rightarrow> pystr + (pystr + pystr) list) \<Rightarrow>
   upload \<Rightarrow> pyexn + pystr" where
  "extract_text_from_file PDF_SUPPORT decode PdfReader file =
     (case after_last_dot (filename file) of
        Inl e \<Rightarrow> Inl e
      | Inr ext \<Rightarrow>
          let extension = py_lower ext; bytes = file_bytes file
          in if extension = ustr ''txt'' then
               (let bytes = (if MAX_TEXT_SIZE_BYTES < length bytes
                             then take MAX_TEXT_SIZE_BYTES bytes else bytes)
                in case decode bytes of
                     Inr text \<Rightarrow> Inr text
                   | Inl e \<Rightarrow> Inr (txt_failed (filename file) e))
             else if extension = ustr ''pdf'' \<and> PDF_SUPPORT then
               (case PdfReader bytes of
                  Inl e \<Rightarrow> Inr (pdf_failed (filename file) e)
                | Inr pages \<Rightarrow>
                    let total_pages = length pages;
                        pages_to_process = min total_pages MAX_PDF_PAGES;
                        text = pages_loop (take pages_to_process pages) [];
                        text = (if pages_to_process < total_pages
                                then text @ pages_note total_pages pages_to_process else text)
                    in if py_strip text \<noteq> [] then Inr text
                       else Inr (no_text_layer (filename file)))
             else if extension = ustr ''pdf'' \<and> \<not> PDF_SUPPORT then Inr no_pdf_support
             else Inr (unsupported_type extension))"

definition clip_bytes :: "nat list \<Rightarrow> nat list" where
  "clip_bytes bytes =
     (if MAX_TEXT_SIZE_BYTES < length bytes then take MAX_TEXT_SIZE_BYTES bytes else bytes)"

section \<open>The steps of \<open>clean_and_parse_json\<close>, named\<close>

text \<open>
  The three stages of \<open>clean_and_parse_json\<close> as functions of their own, for the proofs:
  the text after steps 1 (fences), the cleaned content of steps 2 and 3 (\<open>None\<close> when a
  bracket is missing), and step 4 (parse, with one repair pass). Lemma
  \<open>clean_and_parse_json_steps\<close> shows that they compose to the function above.
\<close>

definition fence_stripped :: "pystr \<Rightarrow> pystr" where
  "fence_stripped text0 =
     (let text = py_strip text0;
          text = (if startswith text backticks then drop_fence_tag text else text);
          text = (if endswith text backticks then take (length text - 3) text else text)
      in py_strip text)"

definition json_content_of :: "pystr \<Rightarrow> bool \<Rightarrow> pystr option" where
  "json_content_of text0 is_list =
     (let text = fence_stripped text0;
          start_index = py_find text (if is_list then 91 else 123);
          end_index = py_rfind text (if is_list then 93 else 125)
      in if start_index = - 1 \<or> end_index = - 1 \<or> end_index < start_index then None
         else Some (clean_content (py_slice text start_index (end_index + 1))))"

definition parse_with_repair :: "nat \<Rightarrow> pystr \<Rightarrow> pyexn + json option" where
  "parse_with_repair lim json_content =
     (case json_loads lim json_content of
        Inr v \<Rightarrow> Inr (Some v)
      | Inl (JSONDecodeError e) \<Rightarrow>
          if \<not> printable (take 200 json_content) then Inl UnicodeEncodeError
          else if is_comma_or_extra e then
            (case json_loads lim (fix_trailing_commas json_content) of
               Inr v \<Rightarrow> Inr (Some v)
             | Inl (JSONDecodeError _) \<Rightarrow> Inr None
             | Inl x \<Rightarrow> Inl x)
          else Inr None
      | Inl x \<Rightarrow> Inl x)"

text \<open>
  The part of \<open>scan_once\<close> for a value that is neither a string nor an array nor an object
  (lemma \<open>scan_once_atom\<close>), and what it means for a result of the decoder to be in order:
  it is not the exhaustion of the model's step budget, and a decoded value has consumed
  at least one character.
\<close>

definition scan_atom :: "pystr \<Rightarrow> pyexn + (json \<times> pystr)" where
  "scan_atom s =
     (if take 4 s = [110, 117, 108, 108] then Inr (JNull, drop 4 s)
      else if take 4 s = [116, 114, 117, 101] then Inr (JBool True, drop 4 s)
      else if take 5 s = [102, 97, 108, 115, 101] then Inr (JBool False, drop 5 s)
      else
        (case match_number s of
           Some (integer, frac, exp, r1) \<Rightarrow>
             if frac \<noteq> [] \<or> exp \<noteq> [] then Inr (JFloat (Float_lit (integer @ frac @ exp)), r1)
             else
               (case parse_int integer of
                  Inl e \<Rightarrow> Inl e
                | Inr i \<Rightarrow> Inr (JInt i, r1))
         | None \<Rightarrow>
             if take 3 s = [78, 97, 78] then Inr (JFloat Float_nan, drop 3 s)
             else if take 8 s = [73, 110, 102, 105, 110, 105, 116, 121]
             then Inr (JFloat Float_inf, drop 8 s)
             else if take 9 s = [45, 73, 110, 102, 105, 110, 105, 116, 121]
             then Inr (JFloat Float_neg_inf, drop 9 s)
             else Inl (JSONDecodeError Expecting_value)))"

definition decode_ok :: "pyexn + (json \<times> pystr) \<Rightarrow> pystr \<Rightarrow> bool" where
  "decode_ok res s \<longleftrightarrow>
     res \<noteq> Inl Fuel_exhausted \<and> (\<forall>v r. res = Inr (v, r) \<longrightarrow> length r < length s)"



section \<open>The shapes of the specification\<close>

text \<open>
  The shapes that the specification gives to an explanation (a one-element array whose
  element has a string \<open>topic\<close> and a \<open>content\<close> of exactly 5 strings) and to a quiz question
  (\<open>options\<close> of exactly 4 strings and a \<open>correctAnswer\<close> among A, B, C, D). They follow the
  words of the specification, not the code.
\<close>

definition is_string :: "json \<Rightarrow> bool" where
  "is_string v = (case v of JString _ \<Rightarrow> True | _ \<Rightarrow> False)"

definition explanation_result_shape :: "json \<Rightarrow> bool" where
  "explanation_result_shape e =
     (case e of
        JObject d \<Rightarrow>
          (case map_of d (ustr ''topic'') of Some (JString _) \<Rightarrow> True | _ \<Rightarrow> False) \<and>
          (case map_of d (ustr ''content'') of
             Some (JArray ps) \<Rightarrow> length ps = 5 \<and> list_all is_string ps
           | _ \<Rightarrow> False)
      | _ \<Rightarrow> False)"

definition explanation_shape :: "json \<Rightarrow> bool" where
  "explanation_shape ex =
     (case ex of JArray es \<Rightarrow> length es = 1 \<and> list_all explanation_result_shape es | _ \<Rightarrow> False)"

definition quiz_question_shape :: "json \<Rightarrow> bool" where
  "quiz_question_shape q =
     (case q of
        JObject d \<Rightarrow>
          (case map_of d (ustr ''options'') of
             Some (JArray opts) \<Rightarrow> length opts = 4 \<and> list_all is_string opts
           | _ \<Rightarrow> False) \<and>
          (case map_of d (ustr ''correctAnswer'') of
             Some (JString a) \<Rightarrow> a = ustr ''A'' \<or> a = ustr ''B'' \<or> a = ustr ''C'' \<or> a = ustr ''D''
           | _ \<Rightarrow> False)
      | _ \<Rightarrow> False)"

text \<open>
  The questions that survive coercion and filtering, in the specification's words: the
  elements of the array recovered by the coercer that pass the validity filter (none when
  the coercer recovers nothing).
\<close>

definition surviving_questions :: "nat \<Rightarrow> pystr option \<Rightarrow> json list" where
  "surviving_questions lim quiz_text =
     (case quiz_text of
        None \<Rightarrow> []
      | Some t \<Rightarrow>
          (case clean_and_parse_json lim t True of
             Inr (Some (JArray xs)) \<Rightarrow> filter valid_question xs
           | _ \<Rightarrow> []))"

section \<open>Example completions\<close>

text \<open>
  A quiz completion of five questions, each with five options that are numbers and with the
  answer letter E, and the question it decodes to.
\<close>

definition five_option_question :: json where
  "five_option_question =
     JObject [(ustr ''question'', JInt 1),
              (ustr ''options'', JArray [JInt 1, JInt 2, JInt 3, JInt 4, JInt 5]),
              (ustr ''correctAnswer'', JString (ustr ''E''))]"

definition five_option_quiz_text :: pystr where
  \<open>five_option_quiz_text = ustr ''[{"question":1,"options":[1,2,3,4,5],"correctAnswer":"E"},{"question":1,"options":[1,2,3,4,5],"correctAnswer":"E"},{"question":1,"options":[1,2,3,4,5],"correctAnswer":"E"},{"question":1,"options":[1,2,3,4,5],"correctAnswer":"E"},{"question":1,"options":[1,2,3,4,5],"correctAnswer":"E"}]''\<close>

text \<open>
  A quiz completion with one question that passes the filter, a number, and a question with
  two options only; and the question that passes.
\<close>

definition one_valid_question :: json where
  "one_valid_question =
     JObject [(ustr ''question'', JString (ustr ''q'')),
              (ustr ''options'',
                 JArray [JString (ustr ''a''), JString (ustr ''b''), JString (ustr ''c''),
                         JString (ustr ''d'')]),
              (ustr ''correctAnswer'', JString (ustr ''A''))]"

definition one_valid_quiz_text :: pystr where
  \<open>one_valid_quiz_text = ustr ''[{"question":"q","options":["a","b","c","d"],"correctAnswer":"A"}, 7, {"question":"q","options":["a","b"],"correctAnswer":"A"}]''\<close>

section \<open>Evaluation on concrete inputs\<close>

named_theorems py_eval \<open>definitions unfolded to run the model on a concrete input\<close>

declare scan_once.simps [simp del] array_loop.simps [simp del] object_loop.simps [simp del]

declare scan_once.simps [py_eval] array_loop.simps [py_eval] object_loop.simps [py_eval]

declare ustr_def [py_eval] py_isspace_def [py_eval] py_strip_def [py_eval]
  startswith_def [py_eval] endswith_def [py_eval] py_find_def [py_eval] py_rfind_def [py_eval]
  py_slice_def [py_eval] py_replace_def [py_eval] py_split_nn_def [py_eval]
  py_dict_def [py_eval] json_ws_def [py_eval] skip_ws_def [py_eval] is_digit_def [py_eval]
  hex_value_def [py_eval] decode_uXXXX_def [py_eval] backslash_def [py_eval]
  match_frac_def [py_eval] match_exp_def [py_eval] match_integer_def [py_eval]
  match_number_def [py_eval] int_max_str_digits_def [py_eval] digits_value_def [py_eval]
  parse_int_def [py_eval] json_loads_def [py_eval] is_ascii_alpha_def [py_eval]
  backticks_def [py_eval] drop_fence_tag_def [py_eval] is_control_def [py_eval]
  clean_content_def [py_eval] is_comma_or_extra_def [py_eval]
  is_surrogate_def [py_eval] printable_def [py_eval]
  clean_and_parse_json_def [py_eval] explanation_data_def [py_eval]
  fallback_content_def [py_eval] fallback_explanation_def [py_eval]
  explanation_for_storage_def [py_eval] unwrap_branch_of_def [py_eval] unwrap_quiz_def [py_eval]
  get_truthy_def [py_eval] valid_question_def [py_eval] quiz_data_def [py_eval]
  final_quiz_def [py_eval] process_completions_def [py_eval]
  is_string_def [py_eval] explanation_result_shape_def [py_eval] explanation_shape_def [py_eval]
  quiz_question_shape_def [py_eval] surviving_questions_def [py_eval]

section \<open>The step budget of the decoder is enough\<close>

lemma scan_once_Nil: "scan_once n k [] = Inl (JSONDecodeError Expecting_value)"
  by (subst scan_once.simps) simp

lemma scan_once_string:
  "scan_once n k (34 # r) =
     (case scanstring r [] of Inl e \<Rightarrow> Inl e | Inr (str, r1) \<Rightarrow> Inr (JString str, r1))"
  by (subst scan_once.simps) simp

lemma scan_once_object:
  "scan_once n k (123 # r) =
     (case k of
        0 \<Rightarrow> Inl RecursionError
      | Suc k1 \<Rightarrow>
          (case skip_ws r of
             [] \<Rightarrow> Inl (JSONDecodeError Expecting_property_name)
           | q # r1 \<Rightarrow>
               if q = 125 then Inr (JObject [], r1)
               else if q = 34 then
                 (case n of 0 \<Rightarrow> Inl Fuel_exhausted | Suc m \<Rightarrow> object_loop m k1 [] r1)
               else Inl (JSONDecodeError Expecting_property_name)))"
  by (subst scan_once.simps) simp

lemma scan_once_array:
  "scan_once n k (91 # r) =
     (case k of
        0 \<Rightarrow> Inl RecursionError
      | Suc k1 \<Rightarrow>
          (case skip_ws r of
             [] \<Rightarrow> Inl (JSONDecodeError Expecting_value)
           | q # r1 \<Rightarrow>
               if q = 93 then Inr (JArray [], r1)
               else
                 (case n of
                    0 \<Rightarrow> Inl Fuel_exhausted
                  | Suc m \<Rightarrow> array_loop m k1 [] (q # r1))))"
  by (subst scan_once.simps) simp

lemma take_hd: "take (Suc n) s = a # xs \<Longrightarrow> \<exists>r. s = a # r"
  by (cases s) auto

lemma scan_once_atom:
  assumes "c \<noteq> 34" "c \<noteq> 123" "c \<noteq> 91"
  shows "scan_once n k (c # r) = scan_atom (c # r)"
proof -
  have 1: "(c = 110 \<and> take 4 (c # r) = [110, 117, 108, 108]) = (take 4 (c # r) = [110, 117, 108, 108])"
    and 2: "(c = 116 \<and> take 4 (c # r) = [116, 114, 117, 101]) = (take 4 (c # r) = [116, 114, 117, 101])"
    and 3: "(c = 102 \<and> take 5 (c # r) = [102, 97, 108, 115, 101]) = (take 5 (c # r) = [102, 97, 108, 115, 101])"
    and 4: "(c = 78 \<and> take 3 (c # r) = [78, 97, 78]) = (take 3 (c # r) = [78, 97, 78])"
    and 5: "(c = 73 \<and> take 8 (c # r) = [73, 110, 102, 105, 110, 105, 116, 121])
            = (take 8 (c # r) = [73, 110, 102, 105, 110, 105, 116, 121])"
    and 6: "(c = 45 \<and> take 9 (c # r) = [45, 73, 110, 102, 105, 110, 105, 116, 121])
            = (take 9 (c # r) = [45, 73, 110, 102, 105, 110, 105, 116, 121])"
    by (auto simp: take_Cons')
  show ?thesis
    apply (subst scan_once.simps)
    apply (simp only: list.case assms if_False 1 2 3 4 5 6 scan_atom_def)
    done
qed

lemma decode_uXXXX_length: "decode_uXXXX s = Some u \<Longrightarrow> 4 \<le> length s"
  by (auto simp: decode_uXXXX_def split: list.splits)

lemma scanstring_shorter:
  "scanstring s acc = Inr (x, r) \<Longrightarrow> length r < length s"
proof (induction s acc rule: scanstring.induct)
  case (1 acc)
  then show ?case by simp
next
  case (2 c r0 acc)
  show ?case
  proof (cases "c = 34")
    case True
    with "2.prems" show ?thesis by simp
  next
    case c34: False
    show ?thesis
    proof (cases "c = 92")
      case False
      with c34 "2.prems" have "\<not> c \<le> 31" and "scanstring r0 (acc @ [c]) = Inr (x, r)"
        by (auto split: if_splits)
      with "2.IH"(5) [OF c34 False] show ?thesis by auto
    next
      case c92: True
      show ?thesis
      proof (cases r0)
        case Nil
        with c92 c34 "2.prems" show ?thesis by simp
      next
        case (Cons esc r1)
        show ?thesis
        proof (cases "esc = 117")
          case False
          with c92 c34 Cons "2.prems" obtain ch where ch: "backslash esc = Some ch"
            and s: "scanstring r1 (acc @ [ch]) = Inr (x, r)"
            by (auto split: option.splits)
          from "2.IH"(1) [OF c34 c92 Cons False ch s] show ?thesis using Cons by simp
        next
          case u: True
          with c92 c34 Cons "2.prems" obtain uni where uni: "decode_uXXXX r1 = Some uni"
            by (auto split: option.splits)
          show ?thesis
          proof (cases "55296 \<le> uni \<and> uni \<le> 56319 \<and> take 2 (drop 4 r1) = [92, 117]")
            case False
            with c92 c34 Cons u uni "2.prems" have s: "scanstring (drop 4 r1) (acc @ [uni]) = Inr (x, r)"
              by auto
            from "2.IH"(4) [OF c34 c92 Cons _ uni False s] u
            have "length r < length (drop 4 r1)" by simp
            then show ?thesis using Cons by simp
          next
            case pair: True
            with c92 c34 Cons u uni "2.prems" obtain uni2 where uni2: "decode_uXXXX (drop 6 r1) = Some uni2"
              by (auto split: option.splits)
            show ?thesis
            proof (cases "56320 \<le> uni2 \<and> uni2 \<le> 57343")
              case True
              with pair c92 c34 Cons u uni uni2 "2.prems"
              have s: "scanstring (drop 10 r1)
                         (acc @ [65536 + ((uni - 55296) * 1024 + (uni2 - 56320))]) = Inr (x, r)"
                by auto
              from "2.IH"(2) [OF c34 c92 Cons _ uni pair uni2 True s] u
              have "length r < length (drop 10 r1)" by simp
              then show ?thesis using Cons by simp
            next
              case False
              with pair c92 c34 Cons u uni uni2 "2.prems"
              have s: "scanstring (drop 4 r1) (acc @ [uni]) = Inr (x, r)"
                by auto
              from "2.IH"(3) [OF c34 c92 Cons _ uni pair uni2 False s] u
              have "length r < length (drop 4 r1)" by simp
              then show ?thesis using Cons by simp
            qed
          qed
        qed
      qed
    qed
  qed
qed

lemma dropWhile_len:
  "length (dropWhile P xs) \<le> Suc (length xs)"
  "length (dropWhile P xs) < Suc (length xs)"
  "length (dropWhile P xs) < Suc (Suc (length xs))"
  using length_dropWhile_le [of P xs] by simp_all

lemma take_Cons_length: "take n s = a # as \<Longrightarrow> 0 < length s"
  by (cases s) auto

lemma match_integer_shorter: "match_integer s = Some (i, r) \<Longrightarrow> length r < length s"
  unfolding match_integer_def Let_def
  by (auto split: list.splits if_splits simp: dropWhile_len)

lemma match_frac_shorter: "match_frac s = (f, r) \<Longrightarrow> length r \<le> length s"
  unfolding match_frac_def
  by (auto split: list.splits if_splits intro: le_trans [OF length_dropWhile_le])

lemma match_exp_shorter: "match_exp s = (e, r) \<Longrightarrow> length r \<le> length s"
  unfolding match_exp_def Let_def
  by (auto split: list.splits if_splits intro: le_trans [OF length_dropWhile_le])

lemma match_number_shorter:
  "match_number s = Some (i, f, e, r) \<Longrightarrow> length r < length s"
  unfolding match_number_def
  by (auto split: option.splits prod.splits
           dest!: match_integer_shorter match_frac_shorter match_exp_shorter)

lemma scan_atom_shorter: "scan_atom s = Inr (v, r) \<Longrightarrow> length r < length s"
  unfolding scan_atom_def
  by (auto split: if_splits option.splits prod.splits sum.splits
           dest: match_number_shorter take_Cons_length)

lemma scan_atom_no_fuel: "scan_atom s \<noteq> Inl Fuel_exhausted"
  unfolding scan_atom_def
  by (auto split: if_splits option.splits prod.splits sum.splits simp: parse_int_def Let_def)

lemma decode_ok_Inl: "e \<noteq> Fuel_exhausted \<Longrightarrow> decode_ok (Inl e) s"
  by (simp add: decode_ok_def)

lemma decode_ok_Inr: "length r < length s \<Longrightarrow> decode_ok (Inr (v, r)) s"
  by (simp add: decode_ok_def)

lemma decode_ok_mono: "decode_ok res t \<Longrightarrow> length t \<le> length s \<Longrightarrow> decode_ok res s"
  by (auto simp: decode_ok_def)

lemma skip_ws_length: "length (skip_ws s) \<le> length s"
  by (simp add: skip_ws_def length_dropWhile_le)

lemma skip_ws_Cons_length: "skip_ws s = q # r \<Longrightarrow> length r < length s"
  using skip_ws_length [of s] by simp

lemma scanstring_error:
  "scanstring s acc = Inl e \<Longrightarrow> \<exists>m. e = JSONDecodeError m"
proof (induction s acc rule: scanstring.induct)
  case (1 acc)
  then show ?case by auto
next
  case (2 c r0 acc)
  show ?case
  proof (cases "c = 34")
    case True
    with "2.prems" show ?thesis by auto
  next
    case c34: False
    show ?thesis
    proof (cases "c = 92")
      case False
      show ?thesis
      proof (cases "c \<le> 31")
        case True
        with c34 False "2.prems" show ?thesis by auto
      next
        case c31: False
        with c34 \<open>c \<noteq> 92\<close> "2.prems" have "scanstring r0 (acc @ [c]) = Inl e" by simp
        with "2.IH"(5) [OF c34 \<open>c \<noteq> 92\<close> c31] show ?thesis by auto
      qed
    next
      case c92: True
      show ?thesis
      proof (cases r0)
        case Nil
        with c92 c34 "2.prems" show ?thesis by auto
      next
        case (Cons esc r1)
        show ?thesis
        proof (cases "esc = 117")
          case False
          show ?thesis
          proof (cases "backslash esc")
            case None
            with False c92 c34 Cons "2.prems" show ?thesis by auto
          next
            case (Some ch)
            with False c92 c34 Cons "2.prems" have s: "scanstring r1 (acc @ [ch]) = Inl e" by simp
            from "2.IH"(1) [OF c34 c92 Cons False Some s] show ?thesis .
          qed
        next
          case u: True
          show ?thesis
          proof (cases "decode_uXXXX r1")
            case None
            with u c92 c34 Cons "2.prems" show ?thesis by auto
          next
            case (Some uni)
            note uni = Some
            show ?thesis
            proof (cases "55296 \<le> uni \<and> uni \<le> 56319 \<and> take 2 (drop 4 r1) = [92, 117]")
              case False
              with c92 c34 Cons u uni "2.prems"
              have s: "scanstring (drop 4 r1) (acc @ [uni]) = Inl e" by auto
              from "2.IH"(4) [OF c34 c92 Cons _ uni False s] u show ?thesis by auto
            next
              case pair: True
              show ?thesis
              proof (cases "decode_uXXXX (drop 6 r1)")
                case None
                with pair u uni c92 c34 Cons "2.prems" show ?thesis by auto
              next
                case (Some uni2)
                note uni2 = Some
                show ?thesis
                proof (cases "56320 \<le> uni2 \<and> uni2 \<le> 57343")
                  case True
                  with pair c92 c34 Cons u uni uni2 "2.prems"
                  have s: "scanstring (drop 10 r1)
                         (acc @ [65536 + ((uni - 55296) * 1024 + (uni2 - 56320))]) = Inl e"
                    by simp
                  from "2.IH"(2) [OF c34 c92 Cons _ uni pair uni2 True s] u show ?thesis by auto
                next
                  case False
                  with pair c92 c34 Cons u uni uni2 "2.prems"
                  have s: "scanstring (drop 4 r1) (acc @ [uni]) = Inl e" by auto
                  from "2.IH"(3) [OF c34 c92 Cons _ uni pair uni2 False s] u show ?thesis by auto
                qed
              qed
            qed
          qed
        qed
      qed
    qed
  qed
qed

lemma scanstring_no_fuel: "scanstring s acc \<noteq> Inl Fuel_exhausted"
  using scanstring_error by blast

lemma scan_once_ok_string:
  "decode_ok (scan_once n k (34 # r)) (34 # r)"
proof (cases "scanstring r []")
  case (Inl e)
  then have "e \<noteq> Fuel_exhausted" using scanstring_no_fuel [of r "[]"] by auto
  then show ?thesis by (simp add: scan_once_string Inl decode_ok_Inl)
next
  case (Inr p)
  obtain str r1 where p: "p = (str, r1)" by (cases p)
  have "length r1 < length r" using Inr p scanstring_shorter by blast
  then show ?thesis by (simp add: scan_once_string Inr p decode_ok_Inr)
qed

lemma scan_once_ok_object:
  assumes obj: "\<And>k pairs t. length t \<le> m \<Longrightarrow> decode_ok (object_loop m k pairs t) t"
    and rm: "length r \<le> m"
  shows "decode_ok (scan_once (Suc m) k (123 # r)) (123 # r)"
proof (cases k)
  case 0
  then show ?thesis by (simp add: scan_once_object decode_ok_Inl)
next
  case (Suc k1)
  show ?thesis
  proof (cases "skip_ws r")
    case Nil
    then show ?thesis by (simp add: scan_once_object Suc decode_ok_Inl)
  next
    case (Cons q r1)
    have l: "length r1 < length r" using skip_ws_Cons_length [OF Cons] .
    then have "decode_ok (object_loop m k1 [] r1) r1" using obj rm by simp
    then have o: "decode_ok (object_loop m k1 [] r1) (123 # r)"
      by (rule decode_ok_mono) (use l in auto)
    have e: "scan_once (Suc m) k (123 # r) =
        (if q = 125 then Inr (JObject [], r1)
         else if q = 34 then object_loop m k1 [] r1
         else Inl (JSONDecodeError Expecting_property_name))"
      by (simp add: scan_once_object Suc Cons)
    show ?thesis
      unfolding e using o l by (simp add: decode_ok_Inl decode_ok_Inr)
  qed
qed

lemma scan_once_ok_array:
  assumes arr: "\<And>k vals t. length t \<le> m \<Longrightarrow> decode_ok (array_loop m k vals t) t"
    and rm: "length r \<le> m"
  shows "decode_ok (scan_once (Suc m) k (91 # r)) (91 # r)"
proof (cases k)
  case 0
  then show ?thesis by (simp add: scan_once_array decode_ok_Inl)
next
  case (Suc k1)
  show ?thesis
  proof (cases "skip_ws r")
    case Nil
    then show ?thesis by (simp add: scan_once_array Suc decode_ok_Inl)
  next
    case (Cons q r1)
    have l: "length (q # r1) \<le> length r" using skip_ws_length [of r] Cons by simp
    then have "decode_ok (array_loop m k1 [] (q # r1)) (q # r1)" using arr rm by simp
    then have o: "decode_ok (array_loop m k1 [] (q # r1)) (91 # r)"
      by (rule decode_ok_mono) (use l in auto)
    have e: "scan_once (Suc m) k (91 # r) =
        (if q = 93 then Inr (JArray [], r1) else array_loop m k1 [] (q # r1))"
      by (simp add: scan_once_array Suc Cons)
    show ?thesis
      unfolding e using o l by (simp add: decode_ok_Inl decode_ok_Inr)
  qed
qed

lemma scan_once_ok_atom:
  assumes "c \<noteq> 34" "c \<noteq> 123" "c \<noteq> 91"
  shows "decode_ok (scan_once n k (c # r)) (c # r)"
proof -
  have "scan_once n k (c # r) = scan_atom (c # r)" using assms by (rule scan_once_atom)
  then show ?thesis
    using scan_atom_no_fuel [of "c # r"] scan_atom_shorter [of "c # r"]
    by (simp add: decode_ok_def)
qed



lemma scan_once_ok:
  assumes arr: "\<And>m k vals t. n = Suc m \<Longrightarrow> length t \<le> m \<Longrightarrow> decode_ok (array_loop m k vals t) t"
    and obj: "\<And>m k pairs t. n = Suc m \<Longrightarrow> length t \<le> m \<Longrightarrow> decode_ok (object_loop m k pairs t) t"
    and len: "length s \<le> n"
  shows "decode_ok (scan_once n k s) s"
proof (cases s)
  case Nil
  then show ?thesis by (simp add: scan_once_Nil decode_ok_Inl)
next
  case (Cons c r)
  with len obtain m where n: "n = Suc m" and rm: "length r \<le> m" by (cases n) auto
  consider "c = 34" | "c = 123" | "c = 91" | "c \<noteq> 34" "c \<noteq> 123" "c \<noteq> 91" by blast
  then show ?thesis
  proof cases
    case 1
    then show ?thesis unfolding Cons by (simp add: scan_once_ok_string)
  next
    case 2
    have "decode_ok (scan_once (Suc m) k (123 # r)) (123 # r)"
      using obj [OF n] rm by (rule scan_once_ok_object)
    then show ?thesis unfolding Cons 2 n .
  next
    case 3
    have "decode_ok (scan_once (Suc m) k (91 # r)) (91 # r)"
      using arr [OF n] rm by (rule scan_once_ok_array)
    then show ?thesis unfolding Cons 3 n .
  next
    case 4
    then show ?thesis unfolding Cons by (rule scan_once_ok_atom)
  qed
qed

lemma array_loop_ok:
  assumes scan: "\<And>k t. length t \<le> n \<Longrightarrow> decode_ok (scan_once n k t) t"
    and arr: "\<And>m k vals t. n = Suc m \<Longrightarrow> length t \<le> m \<Longrightarrow> decode_ok (array_loop m k vals t) t"
    and len: "length s \<le> n"
  shows "decode_ok (array_loop n k vals s) s"
proof (cases "scan_once n k s")
  case (Inl e)
  then have "e \<noteq> Fuel_exhausted" using scan [OF len, of k] by (auto simp: decode_ok_def)
  moreover have "array_loop n k vals s = Inl e" by (subst array_loop.simps) (simp add: Inl)
  ultimately show ?thesis by (simp add: decode_ok_Inl)
next
  case (Inr p)
  obtain v s1 where p: "p = (v, s1)" by (cases p)
  have l1: "length s1 < length s" using scan [OF len, of k] Inr p by (auto simp: decode_ok_def)
  show ?thesis
  proof (cases "skip_ws s1")
    case Nil
    have "array_loop n k vals s = Inl (JSONDecodeError Expecting_comma_delimiter)"
      by (subst array_loop.simps) (simp add: Inr p Nil)
    then show ?thesis by (simp add: decode_ok_Inl)
  next
    case (Cons q s2)
    have l2: "length s2 < length s1" using skip_ws_Cons_length [OF Cons] .
    from l1 len obtain m where n: "n = Suc m" by (cases n) auto
    have l3: "length (skip_ws s2) \<le> m" using skip_ws_length [of s2] l1 l2 len n by simp
    have "decode_ok (array_loop m k (vals @ [v]) (skip_ws s2)) (skip_ws s2)"
      using arr [OF n l3] .
    then have o: "decode_ok (array_loop m k (vals @ [v]) (skip_ws s2)) s"
      by (rule decode_ok_mono) (use skip_ws_length [of s2] l1 l2 in simp)
    have sc: "scan_once (Suc m) k s = Inr (v, s1)" using Inr p n by simp
    have e: "array_loop n k vals s =
        (if q = 93 then Inr (JArray (vals @ [v]), s2)
         else if q \<noteq> 44 then Inl (JSONDecodeError Expecting_comma_delimiter)
         else array_loop m k (vals @ [v]) (skip_ws s2))"
      unfolding n by (subst array_loop.simps) (simp add: sc Cons)
    show ?thesis
      unfolding e using o l1 l2 by (simp add: decode_ok_Inl decode_ok_Inr)
  qed
qed

lemma object_loop_ok:
  assumes scan: "\<And>k t. length t \<le> n \<Longrightarrow> decode_ok (scan_once n k t) t"
    and obj: "\<And>m k pairs t. n = Suc m \<Longrightarrow> length t \<le> m \<Longrightarrow> decode_ok (object_loop m k pairs t) t"
    and len: "length s \<le> n"
  shows "decode_ok (object_loop n k pairs s) s"
proof (cases "scanstring s []")
  case (Inl e)
  then have "e \<noteq> Fuel_exhausted" using scanstring_no_fuel [of s "[]"] by auto
  moreover have "object_loop n k pairs s = Inl e" by (subst object_loop.simps) (simp add: Inl)
  ultimately show ?thesis by (simp add: decode_ok_Inl)
next
  case (Inr p0)
  obtain key s1 where p0: "p0 = (key, s1)" by (cases p0)
  have l1: "length s1 < length s" using Inr p0 scanstring_shorter by blast
  show ?thesis
  proof (cases "skip_ws s1")
    case Nil
    have "object_loop n k pairs s = Inl (JSONDecodeError Expecting_colon_delimiter)"
      by (subst object_loop.simps) (simp add: Inr p0 Nil)
    then show ?thesis by (simp add: decode_ok_Inl)
  next
    case (Cons c s2)
    note c = Cons
    have l2: "length s2 < length s1" using skip_ws_Cons_length [OF c] .
    show ?thesis
    proof (cases "c = 58")
      case False
      have "object_loop n k pairs s = Inl (JSONDecodeError Expecting_colon_delimiter)"
        by (subst object_loop.simps) (simp add: Inr p0 c False)
      then show ?thesis by (simp add: decode_ok_Inl)
    next
      case True
      have l3: "length (skip_ws s2) \<le> n" using skip_ws_length [of s2] l1 l2 len by simp
      note sc = scan [OF l3, of k]
      show ?thesis
      proof (cases "scan_once n k (skip_ws s2)")
        case (Inl e)
        then have "e \<noteq> Fuel_exhausted" using sc by (auto simp: decode_ok_def)
        moreover have "object_loop n k pairs s = Inl e"
          by (subst object_loop.simps) (simp add: Inr p0 c True Inl)
        ultimately show ?thesis by (simp add: decode_ok_Inl)
      next
        case (Inr p)
        note v = Inr
        obtain v s3 where p: "p = (v, s3)" by (cases p)
        have l4: "length s3 < length (skip_ws s2)" using sc v p by (auto simp: decode_ok_def)
        then have l4': "length s3 < length s2" using skip_ws_length [of s2] by simp
        show ?thesis
        proof (cases "skip_ws s3")
          case Nil
          have "object_loop n k pairs s = Inl (JSONDecodeError Expecting_comma_delimiter)"
            by (subst object_loop.simps) (simp add: \<open>scanstring s [] = Inr p0\<close> p0 c True v p Nil)
          then show ?thesis by (simp add: decode_ok_Inl)
        next
          case (Cons q s4)
          note q = Cons
          have l5: "length s4 < length s3" using skip_ws_Cons_length [OF q] .
          show ?thesis
          proof (cases "q = 125")
            case True
            have "object_loop n k pairs s = Inr (JObject (py_dict (pairs @ [(key, v)])), s4)"
              by (subst object_loop.simps)
                 (simp add: \<open>scanstring s [] = Inr p0\<close> p0 c \<open>c = 58\<close> \<open>scan_once n k (skip_ws s2) = Inr p\<close> p q True)
            then show ?thesis using l1 l2 l4' l5 by (simp add: decode_ok_Inr)
          next
            case q125: False
            show ?thesis
            proof (cases "q = 44")
              case False
              have "object_loop n k pairs s = Inl (JSONDecodeError Expecting_comma_delimiter)"
                by (subst object_loop.simps)
                   (simp add: \<open>scanstring s [] = Inr p0\<close> p0 c \<open>c = 58\<close> \<open>scan_once n k (skip_ws s2) = Inr p\<close> p q q125 False)
              then show ?thesis by (simp add: decode_ok_Inl)
            next
              case q44: True
              show ?thesis
              proof (cases "skip_ws s4")
                case Nil
                have "object_loop n k pairs s = Inl (JSONDecodeError Expecting_property_name)"
                  by (subst object_loop.simps)
                     (simp add: \<open>scanstring s [] = Inr p0\<close> p0 c \<open>c = 58\<close> \<open>scan_once n k (skip_ws s2) = Inr p\<close> p q q44 Nil)
                then show ?thesis by (simp add: decode_ok_Inl)
              next
                case (Cons kq s5)
                have l6: "length s5 < length s4" using skip_ws_Cons_length [OF Cons] .
                from l1 len obtain m where n: "n = Suc m" by (cases n) auto
                have l7: "length s5 \<le> m" using l1 l2 l4' l5 l6 len n by simp
                have "decode_ok (object_loop m k (pairs @ [(key, v)]) s5) s5"
                  using obj [OF n l7] .
                then have o: "decode_ok (object_loop m k (pairs @ [(key, v)]) s5) s"
                  by (rule decode_ok_mono) (use l1 l2 l4' l5 l6 in simp)
                have sc': "scan_once (Suc m) k (skip_ws s2) = Inr (v, s3)"
                  using \<open>scan_once n k (skip_ws s2) = Inr p\<close> p n by simp
                have e: "object_loop n k pairs s =
                    (if kq \<noteq> 34 then Inl (JSONDecodeError Expecting_property_name)
                     else object_loop m k (pairs @ [(key, v)]) s5)"
                  unfolding n by (subst object_loop.simps)
                     (simp add: \<open>scanstring s [] = Inr p0\<close> p0 c \<open>c = 58\<close> sc' q q44 Cons)
                show ?thesis unfolding e using o by (simp add: decode_ok_Inl)
              qed
            qed
          qed
        qed
      qed
    qed
  qed
qed

lemma decoder_fuel:
  "(\<forall>k t. length t \<le> n \<longrightarrow> decode_ok (scan_once n k t) t) \<and>
   (\<forall>k vals t. length t \<le> n \<longrightarrow> decode_ok (array_loop n k vals t) t) \<and>
   (\<forall>k pairs t. length t \<le> n \<longrightarrow> decode_ok (object_loop n k pairs t) t)"
proof (induction n)
  case 0
  have s: "decode_ok (scan_once 0 k t) t" if "length t \<le> 0" for k t
    by (rule scan_once_ok) (use that in auto)
  have "decode_ok (array_loop 0 k vals t) t" if "length t \<le> 0" for k vals t
    by (rule array_loop_ok) (use that s in auto)
  moreover have "decode_ok (object_loop 0 k pairs t) t" if "length t \<le> 0" for k pairs t
    by (rule object_loop_ok) (use that s in auto)
  ultimately show ?case using s by blast
next
  case (Suc n)
  have s: "decode_ok (scan_once (Suc n) k t) t" if "length t \<le> Suc n" for k t
    by (rule scan_once_ok) (use that Suc in auto)
  have "decode_ok (array_loop (Suc n) k vals t) t" if "length t \<le> Suc n" for k vals t
    by (rule array_loop_ok) (use that s Suc in auto)
  moreover have "decode_ok (object_loop (Suc n) k pairs t) t" if "length t \<le> Suc n" for k pairs t
    by (rule object_loop_ok) (use that s Suc in auto)
  ultimately show ?case using s by blast
qed

lemma json_loads_fuel: "json_loads lim s \<noteq> Inl Fuel_exhausted"
proof -
  have "decode_ok (scan_once (length s) lim (skip_ws s)) (skip_ws s)"
    using decoder_fuel [of "length s"] skip_ws_length [of s] by blast
  then show ?thesis
    by (auto simp: json_loads_def decode_ok_def split: sum.splits prod.splits)
qed

section \<open>What the coercer can return\<close>


lemma clean_and_parse_json_steps:
  "clean_and_parse_json lim text is_list =
     (if text = [] then Inr None
      else case json_content_of text is_list of
             None \<Rightarrow> Inr None
           | Some c \<Rightarrow> parse_with_repair lim c)"
  unfolding clean_and_parse_json_def json_content_of_def fence_stripped_def
    parse_with_repair_def Let_def
  by simp

lemma parse_with_repair_Some:
  "parse_with_repair lim c = Inr (Some v) \<Longrightarrow>
     json_loads lim c = Inr v \<or> json_loads lim (fix_trailing_commas c) = Inr v"
  unfolding parse_with_repair_def
  by (auto split: sum.splits pyexn.splits if_splits)

lemma array_loop_is_array:
  "array_loop n k vals s = Inr (v, r) \<Longrightarrow> \<exists>xs. v = JArray xs"
proof (induction n arbitrary: vals s)
  case 0
  then show ?case
    by (subst (asm) array_loop.simps) (auto split: sum.splits list.splits if_splits prod.splits)
next
  case (Suc n)
  from Suc.prems show ?case
    by (subst (asm) array_loop.simps)
       (auto split: sum.splits list.splits if_splits prod.splits dest: Suc.IH)
qed

lemma object_loop_is_object:
  "object_loop n k pairs s = Inr (v, r) \<Longrightarrow> \<exists>d. v = JObject d"
proof (induction n arbitrary: pairs s)
  case 0
  then show ?case
    by (subst (asm) object_loop.simps) (auto split: sum.splits list.splits if_splits prod.splits)
next
  case (Suc n)
  from Suc.prems show ?case
    by (subst (asm) object_loop.simps)
       (auto split: sum.splits list.splits if_splits prod.splits dest: Suc.IH)
qed

lemma scan_once_bracket:
  "scan_once n k (91 # r) = Inr (v, r') \<Longrightarrow> \<exists>xs. v = JArray xs"
  apply (subst (asm) scan_once.simps)
  apply (simp split: list.splits if_splits nat.splits)
  apply (auto dest: array_loop_is_array)
  done

lemma scan_once_brace:
  "scan_once n k (123 # r) = Inr (v, r') \<Longrightarrow> \<exists>d. v = JObject d"
  apply (subst (asm) scan_once.simps)
  apply (simp split: list.splits if_splits nat.splits)
  apply (auto dest: object_loop_is_object)
  done

lemma json_loads_bracket: "json_loads lim (91 # r) = Inr v \<Longrightarrow> \<exists>xs. v = JArray xs"
  apply (simp add: json_loads_def skip_ws_def json_ws_def startswith_def
           split: sum.splits if_splits prod.splits)
  apply (auto dest: scan_once_bracket)
  done

lemma json_loads_brace: "json_loads lim (123 # r) = Inr v \<Longrightarrow> \<exists>d. v = JObject d"
  apply (simp add: json_loads_def skip_ws_def json_ws_def startswith_def
           split: sum.splits if_splits prod.splits)
  apply (auto dest: scan_once_brace)
  done

lemma slice_from_find:
  assumes "py_find text c \<noteq> - 1" "py_find text c \<le> e"
  shows "\<exists>r. py_slice text (py_find text c) (e + 1) = c # r"
proof -
  from assms(1) have cin: "c \<in> set text" by (auto simp: py_find_def split: if_splits)
  then obtain ys zs where t: "text = ys @ c # zs" and ny: "c \<notin> set ys"
    by (meson split_list_first)
  have "\<And>x. x \<in> set ys \<Longrightarrow> x \<noteq> c" using ny by auto
  then have tw: "takeWhile (\<lambda>x. x \<noteq> c) text = ys"
    unfolding t by (subst takeWhile_append2) auto
  have fk: "py_find text c = int (length ys)" using cin tw by (simp add: py_find_def)
  have "nat (e + 1) - length ys = Suc (nat e - length ys)" using assms(2) fk by auto
  then show ?thesis using fk t by (simp add: py_slice_def)
qed

lemma py_replace_Cons: "py_replace a b (c # r) = (if c = a then b else c) # py_replace a b r"
  by (simp add: py_replace_def)

lemma clean_content_bracket: "clean_content (91 # r) = 91 # clean_content r"
  unfolding clean_content_def Let_def by (simp add: py_replace_Cons is_control_def)

lemma clean_content_brace: "clean_content (123 # r) = 123 # clean_content r"
  unfolding clean_content_def Let_def by (simp add: py_replace_Cons is_control_def)

lemma json_content_of_head:
  assumes "json_content_of text is_list = Some c"
  shows "\<exists>r. c = (if is_list then 91 else 123) # r"
proof -
  let ?t = "fence_stripped text"
  let ?o = "if is_list then 91 else 123 :: nat"
  let ?e = "py_rfind ?t (if is_list then 93 else 125)"
  have ne: "py_find ?t ?o \<noteq> - 1" and le: "py_find ?t ?o \<le> ?e"
    and c: "c = clean_content (py_slice ?t (py_find ?t ?o) (?e + 1))"
    using assms unfolding json_content_of_def Let_def by (auto split: if_splits)
  obtain r where "py_slice ?t (py_find ?t ?o) (?e + 1) = ?o # r"
    using slice_from_find [OF ne le] by blast
  then show ?thesis
    using c by (cases is_list) (simp_all add: clean_content_bracket clean_content_brace)
qed

lemma coercer_list_is_array:
  assumes "clean_and_parse_json lim text True = Inr (Some v)"
  shows "\<exists>xs. v = JArray xs"
proof -
  from assms obtain c where c: "json_content_of text True = Some c"
    and p: "parse_with_repair lim c = Inr (Some v)"
    by (auto simp: clean_and_parse_json_steps split: if_splits option.splits)
  from json_content_of_head [OF c] obtain r where r: "c = 91 # r" by auto
  from parse_with_repair_Some [OF p] show ?thesis
    unfolding r by (auto dest: json_loads_bracket)
qed

lemma coercer_object_is_object:
  assumes "clean_and_parse_json lim text False = Inr (Some v)"
  shows "\<exists>d. v = JObject d"
proof -
  from assms obtain c where c: "json_content_of text False = Some c"
    and p: "parse_with_repair lim c = Inr (Some v)"
    by (auto simp: clean_and_parse_json_steps split: if_splits option.splits)
  from json_content_of_head [OF c] obtain r where r: "c = 123 # r" by auto
  from parse_with_repair_Some [OF p] show ?thesis
    unfolding r by (auto dest: json_loads_brace)
qed

section \<open>The size of the combined context\<close>

lemma length_truncation_marker: "length truncation_marker = 54"
  by (simp add: truncation_marker_def ustr_def)

text \<open>
  Claim C5, as stated: after the truncation step the combined context is at most
  \<open>MAX_API_CONTEXT_SIZE\<close> characters long. It fails for the combined text of one file
  \<open>a.txt\<close> holding 8000 letters: the text is cut to 8000 characters and the marker of
  54 characters is appended, which gives 8054 characters.
\<close>

theorem truncate_context_exceeds_max:
  "\<not> length (truncate_context
        ([10, 10] @ ustr ''--- Content from a.txt ---'' @ [10, 10] @ replicate 8000 97))
      \<le> MAX_API_CONTEXT_SIZE"
  by (simp add: truncate_context_def MAX_API_CONTEXT_SIZE_def length_truncation_marker ustr_def)

text \<open>
  Claim C5, amended: the combined context after the truncation step is at most
  \<open>MAX_API_CONTEXT_SIZE\<close> plus the 54 characters of the truncation marker long; a text
  within the limit is left as it is, and a longer one keeps exactly its first
  \<open>MAX_API_CONTEXT_SIZE\<close> characters before the marker.
\<close>

theorem truncate_context_bound:
  "length (truncate_context t) \<le> MAX_API_CONTEXT_SIZE + 54 \<and>
   (length t \<le> MAX_API_CONTEXT_SIZE \<longrightarrow> truncate_context t = t) \<and>
   (MAX_API_CONTEXT_SIZE < length t \<longrightarrow>
      truncate_context t = take MAX_API_CONTEXT_SIZE t @ truncation_marker \<and>
      length (truncate_context t) = MAX_API_CONTEXT_SIZE + 54)"
  by (simp add: truncate_context_def length_truncation_marker)

theorem truncate_context_bound_witness:
  "length (truncate_context (replicate 9000 97)) = 8054 \<and>
   truncate_context (ustr ''abc'') = ustr ''abc''"
  using truncate_context_bound [of "replicate 9000 97"] truncate_context_bound [of "ustr ''abc''"]
  by (simp add: MAX_API_CONTEXT_SIZE_def ustr_def length_truncation_marker)

section \<open>The explanation fallback\<close>

lemma split_blank_nonempty: "split_blank cur s \<noteq> []"
  by (induction cur s rule: split_blank.induct) auto

lemma fallback_content_length:
  "1 \<le> length (fallback_content et) \<and> length (fallback_content et) \<le> 5"
proof -
  have "1 \<le> length (take 5 (py_split_nn t))" for t
    using split_blank_nonempty [of "[]" t]
    by (cases "split_blank [] t") (simp_all add: py_split_nn_def)
  then show ?thesis
    by (auto simp: fallback_content_def split: option.splits)
qed

text \<open>
  Claim C4, as stated: when the coercer returns \<open>None\<close> for the explanation completion, the
  fallback content always has exactly 5 entries (unless there is no completion text). It
  fails for a completion cut off before its closing brace: the coercer finds no \<open>}\<close> and
  returns \<open>None\<close>, the text has no blank line, and the content is that one block.
\<close>

theorem fallback_content_not_five:
  \<open>explanation_data 1000 (Some (ustr ''{"topic": "T", "content": ["p1", "p2"'')) = Inr None \<and>
   fallback_content (Some (ustr ''{"topic": "T", "content": ["p1", "p2"''))
     = [ustr ''{"topic": "T", "content": ["p1", "p2"''] \<and>
   length (fallback_content (Some (ustr ''{"topic": "T", "content": ["p1", "p2"''))) \<noteq> 5\<close>
  by (simp add: py_eval)

text \<open>
  Claim C4, amended: when the coercer returns \<open>None\<close> for the explanation completion (or is
  not called because there is no completion text), the explanation of the response is the
  one-element list of the fallback object with the fixed failure topic; its content is the
  first at most 5 blocks of the raw completion text split at blank lines, between 1 and 5
  entries, and it is the single placeholder string when there is no completion text.
\<close>

theorem explanation_fallback_content:
  assumes "explanation_data lim et = Inr None"
  shows "explanation_for_storage lim et = Inr (JArray [fallback_explanation et]) \<and>
         fallback_explanation et =
           JObject [(ustr ''topic'', JString fallback_topic),
                    (ustr ''content'', JArray (map JString (fallback_content et)))] \<and>
         (\<forall>t. et = Some t \<and> t \<noteq> [] \<longrightarrow> fallback_content et = take 5 (py_split_nn t)) \<and>
         (et = None \<or> et = Some [] \<longrightarrow> fallback_content et = [placeholder]) \<and>
         1 \<le> length (fallback_content et) \<and> length (fallback_content et) \<le> 5"
proof -
  have "explanation_for_storage lim et = Inr (JArray [fallback_explanation et])"
    using assms by (simp add: explanation_for_storage_def fallback_explanation_def)
  moreover have "\<forall>t. et = Some t \<and> t \<noteq> [] \<longrightarrow> fallback_content et = take 5 (py_split_nn t)"
    by (simp add: fallback_content_def)
  moreover have "et = None \<or> et = Some [] \<longrightarrow> fallback_content et = [placeholder]"
    by (auto simp: fallback_content_def)
  ultimately show ?thesis
    using fallback_content_length [of et] by (simp add: fallback_explanation_def)
qed

theorem explanation_fallback_content_witness:
  "explanation_data 1000 (Some ([97, 10, 10, 98])) = Inr None \<and>
   explanation_for_storage 1000 (Some [97, 10, 10, 98])
     = Inr (JArray [JObject [(ustr ''topic'', JString fallback_topic),
                             (ustr ''content'', JArray [JString [97], JString [98]])]])"
proof -
  have h: "explanation_data 1000 (Some ([97, 10, 10, 98])) = Inr None"
    by (simp add: py_eval)
  show ?thesis
    using h explanation_fallback_content [OF h]
    by (simp add: py_split_nn_def)
qed

section \<open>The explanation of the response\<close>

text \<open>
  Claim C1, as stated: the explanation of every successful response has a \<open>content\<close> of
  exactly 5 strings, the fallback being substituted when the decoded value has another
  shape. It fails for a completion with three paragraphs: the decoded object is returned
  as it is.
\<close>

theorem explanation_not_validated:
  \<open>process_completions 1000 (Some (ustr ''{"topic": "T", "content": ["p1", "p2", "p3"]}'')) None
     = Inr \<lparr> explanation =
               JArray [JObject [(ustr ''topic'', JString (ustr ''T'')),
                                (ustr ''content'',
                                 JArray [JString (ustr ''p1''), JString (ustr ''p2''),
                                         JString (ustr ''p3'')])]],
             quiz = [fallback_question], quiz_status = Status_failed 0 \<rparr> \<and>
   \<not> explanation_shape
        (JArray [JObject [(ustr ''topic'', JString (ustr ''T'')),
                          (ustr ''content'',
                           JArray [JString (ustr ''p1''), JString (ustr ''p2''),
                                   JString (ustr ''p3'')])]])\<close>
  by (simp add: py_eval)

text \<open>
  Claim C1, amended: for every successful response, the explanation field is a one-element
  array whose element is a JSON object. That object is the decoded explanation exactly as
  the coercer returned it, with no check of its \<open>topic\<close> or of the number of paragraphs in
  its \<open>content\<close>; the fallback object is substituted only when the coercer returned \<open>None\<close>
  (or was not called because there was no completion text).
\<close>

theorem explanation_one_object:
  assumes "process_completions lim et qt = Inr r"
  shows "\<exists>d. explanation r = JArray [JObject d] \<and>
             (explanation_data lim et = Inr (Some (JObject d)) \<or>
              explanation_data lim et = Inr None \<and> JObject d = fallback_explanation et)"
proof -
  from assms have st: "explanation_for_storage lim et = Inr (explanation r)"
    by (auto simp: process_completions_def split: sum.splits)
  then obtain parsed where p: "explanation_data lim et = Inr parsed"
    by (auto simp: explanation_for_storage_def split: sum.splits)
  show ?thesis
  proof (cases parsed)
    case None
    with p st show ?thesis
      by (auto simp: explanation_for_storage_def fallback_explanation_def)
  next
    case (Some v)
    with p have "\<exists>t. et = Some t \<and> clean_and_parse_json lim t False = Inr (Some v)"
      by (auto simp: explanation_data_def split: option.splits if_splits)
    then obtain d where "v = JObject d" using coercer_object_is_object by blast
    with p st Some show ?thesis
      by (auto simp: explanation_for_storage_def)
  qed
qed

theorem explanation_one_object_witness:
  \<open>process_completions 1000 (Some (ustr ''{"topic": "T"}'')) None
     = Inr \<lparr> explanation = JArray [JObject [(ustr ''topic'', JString (ustr ''T''))]],
             quiz = [fallback_question], quiz_status = Status_failed 0 \<rparr>\<close>
proof -
  have h: \<open>process_completions 1000 (Some (ustr ''{"topic": "T"}'')) None
     = Inr \<lparr> explanation = JArray [JObject [(ustr ''topic'', JString (ustr ''T''))]],
             quiz = [fallback_question], quiz_status = Status_failed 0 \<rparr>\<close>
    by (simp add: py_eval)
  show ?thesis
    using h explanation_one_object [OF h] by simp
qed

section \<open>The quiz of the response\<close>

text \<open>
  Claim C10: whenever \<open>clean_and_parse_json\<close> is called with \<open>is_list=True\<close> and returns a
  value other than \<open>None\<close>, that value is a JSON array; so in the caller the test
  \<open>not isinstance(temp_quiz_data, list)\<close> is false, neither named-key unwrap (\<open>quiz\<close>,
  \<open>questions\<close>) nor the wrap of a single value is taken, and the list that is filtered is
  the array itself.
\<close>

theorem coercer_list_never_unwrapped:
  assumes "clean_and_parse_json lim text True = Inr (Some v)"
  shows "(\<exists>xs. v = JArray xs) \<and> unwrap_branch_of v = Is_list \<and> v = JArray (unwrap_quiz v)"
  using coercer_list_is_array [OF assms]
  by (auto simp: unwrap_branch_of_def unwrap_quiz_def)

theorem coercer_list_never_unwrapped_witness:
  \<open>clean_and_parse_json 1000 (ustr ''[1]'') True = Inr (Some (JArray [JInt 1])) \<and>
   unwrap_branch_of (JArray [JInt 1]) = Is_list \<and> unwrap_quiz (JArray [JInt 1]) = [JInt 1]\<close>
proof -
  have h: \<open>clean_and_parse_json 1000 (ustr ''[1]'') True = Inr (Some (JArray [JInt 1]))\<close>
    by (simp add: py_eval)
  show ?thesis
    using h coercer_list_never_unwrapped [OF h] by simp
qed

lemma quiz_data_survivors:
  assumes "quiz_data lim qt = Inr qd"
  shows "surviving_questions lim qt = (case qd of None \<Rightarrow> [] | Some qs \<Rightarrow> qs)"
proof (cases qt)
  case None
  with assms show ?thesis by (simp add: quiz_data_def surviving_questions_def)
next
  case (Some t)
  show ?thesis
  proof (cases "clean_and_parse_json lim t True")
    case (Inl e)
    with assms Some show ?thesis
      by (cases "t = []") (simp_all add: quiz_data_def clean_and_parse_json_steps)
  next
    case (Inr res)
    show ?thesis
    proof (cases res)
      case None
      with assms Some Inr show ?thesis
        by (auto simp: quiz_data_def surviving_questions_def split: if_splits)
    next
      case (Some v)
      with Inr obtain xs where v: "v = JArray xs"
        using coercer_list_is_array by blast
      have "t \<noteq> []" using Inr Some by (auto simp: clean_and_parse_json_steps)
      with assms \<open>qt = Some t\<close> Inr Some v show ?thesis
        by (auto simp: quiz_data_def surviving_questions_def unwrap_quiz_def split: if_splits)
    qed
  qed
qed

lemma fallback_question_length: "length (fst (final_quiz qd)) \<ge> 1"
  by (auto simp: final_quiz_def split: option.splits)

text \<open>
  Claim C3: in a successful response the quiz is the single fixed fallback question if and
  only if fewer than 5 questions satisfying the validity filter survive coercion and
  filtering (and then the status reports the failure); otherwise the quiz is the list of
  the surviving questions; and the quiz always has at least one element.
\<close>

theorem quiz_fallback_iff:
  assumes "process_completions lim et qt = Inr r"
  shows "(quiz r = [fallback_question] \<longleftrightarrow> length (surviving_questions lim qt) < 5) \<and>
         (quiz_status r \<noteq> Status_success \<longleftrightarrow> length (surviving_questions lim qt) < 5) \<and>
         (5 \<le> length (surviving_questions lim qt) \<longrightarrow> quiz r = surviving_questions lim qt) \<and>
         1 \<le> length (quiz r)"
proof -
  from assms obtain ex qd where qd: "quiz_data lim qt = Inr qd"
    and r: "r = \<lparr> explanation = ex, quiz = fst (final_quiz qd), quiz_status = snd (final_quiz qd) \<rparr>"
    by (auto simp: process_completions_def split: sum.splits)
  note s = quiz_data_survivors [OF qd]
  show ?thesis
  proof (cases qd)
    case None
    with s r show ?thesis by (simp add: final_quiz_def)
  next
    case (Some qs)
    with s r show ?thesis by (auto simp: final_quiz_def)
  qed
qed

lemma quiz_data_five_options:
  "quiz_data 1000 (Some five_option_quiz_text)
   = Inr (Some [five_option_question, five_option_question, five_option_question,
                five_option_question, five_option_question])"
  unfolding five_option_quiz_text_def five_option_question_def
  by (simp add: py_eval)

lemma process_five_options:
  "process_completions 1000 None (Some five_option_quiz_text)
   = Inr \<lparr> explanation = JArray [fallback_explanation None],
           quiz = [five_option_question, five_option_question, five_option_question,
                   five_option_question, five_option_question],
           quiz_status = Status_success \<rparr>"
  unfolding process_completions_def quiz_data_five_options
  by (simp add: explanation_for_storage_def explanation_data_def fallback_explanation_def
        final_quiz_def)

lemma quiz_data_one_valid:
  "quiz_data 1000 (Some one_valid_quiz_text) = Inr (Some [one_valid_question])"
  unfolding one_valid_quiz_text_def one_valid_question_def
  by (simp add: py_eval)

lemma process_one_valid:
  "process_completions 1000 None (Some one_valid_quiz_text)
   = Inr \<lparr> explanation = JArray [fallback_explanation None], quiz = [fallback_question],
           quiz_status = Status_failed 1 \<rparr>"
  unfolding process_completions_def quiz_data_one_valid
  by (simp add: explanation_for_storage_def explanation_data_def fallback_explanation_def
        final_quiz_def)

theorem quiz_fallback_iff_witness:
  "surviving_questions 1000 (Some five_option_quiz_text)
     = [five_option_question, five_option_question, five_option_question,
        five_option_question, five_option_question] \<and>
   process_completions 1000 None (Some one_valid_quiz_text)
     = Inr \<lparr> explanation = JArray [fallback_explanation None], quiz = [fallback_question],
             quiz_status = Status_failed 1 \<rparr> \<and>
   length (surviving_questions 1000 (Some one_valid_quiz_text)) < 5"
  using quiz_fallback_iff [OF process_five_options] quiz_fallback_iff [OF process_one_valid]
    process_one_valid
  by simp

text \<open>
  Claim C8, as stated: every question of the quiz of a successful response that is not the
  fallback has exactly 4 options, all strings, and a \<open>correctAnswer\<close> among A, B, C, D. It
  fails for a completion of five questions with five numeric options each and the answer
  letter E: all five pass the filter and are returned with the status "Success".
\<close>

theorem quiz_question_shape_not_enforced:
  "process_completions 1000 None (Some five_option_quiz_text)
   = Inr \<lparr> explanation = JArray [fallback_explanation None],
           quiz = [five_option_question, five_option_question, five_option_question,
                   five_option_question, five_option_question],
           quiz_status = Status_success \<rparr> \<and>
   \<not> quiz_question_shape five_option_question"
  unfolding process_five_options
  by (simp add: quiz_question_shape_def five_option_question_def ustr_def is_string_def)

lemma valid_question_fields:
  assumes "valid_question q"
  shows "\<exists>d opts. q = JObject d \<and> map_of d (ustr ''options'') = Some (JArray opts) \<and>
           4 \<le> length opts \<and> get_truthy d (ustr ''question'') \<and>
           get_truthy d (ustr ''correctAnswer'')"
proof (cases q)
  case (JObject d)
  with assms have t: "get_truthy d (ustr ''question'')" "get_truthy d (ustr ''correctAnswer'')"
    and o: "(case map_of d (ustr ''options'') of Some (JArray opts) \<Rightarrow> 4 \<le> length opts | _ \<Rightarrow> False)"
    by (simp_all add: valid_question_def)
  from o obtain v where v: "map_of d (ustr ''options'') = Some v"
    by (cases "map_of d (ustr ''options'')") auto
  with o obtain opts where "v = JArray opts" "4 \<le> length opts"
    by (cases v) auto
  with v t JObject show ?thesis by auto
qed (use assms in \<open>simp_all add: valid_question_def\<close>)

text \<open>
  Claim C8, amended: in a successful response whose quiz is not the fallback, the quiz has
  at least 5 questions and every one of them passed the validity filter: it is a JSON
  object whose \<open>question\<close> and \<open>correctAnswer\<close> are present and truthy (of any type) and
  whose \<open>options\<close> is a list of at least 4 elements (of any type).
\<close>

theorem quiz_questions_pass_filter:
  assumes "process_completions lim et qt = Inr r" and "quiz_status r = Status_success"
  shows "5 \<le> length (quiz r) \<and>
         (\<forall>q \<in> set (quiz r).
            valid_question q \<and>
            (\<exists>d opts. q = JObject d \<and> map_of d (ustr ''options'') = Some (JArray opts) \<and>
               4 \<le> length opts \<and> get_truthy d (ustr ''question'') \<and>
               get_truthy d (ustr ''correctAnswer'')))"
proof -
  from assms(1) obtain qd where qd: "quiz_data lim qt = Inr qd"
    and q: "quiz r = fst (final_quiz qd)" and st: "quiz_status r = snd (final_quiz qd)"
    by (auto simp: process_completions_def split: sum.splits)
  from st assms(2) obtain qs where qs: "qd = Some qs" "5 \<le> length qs" "quiz r = qs"
    using q by (auto simp: final_quiz_def split: option.splits if_splits)
  from qd qs(1) have "\<forall>q \<in> set qs. valid_question q"
    by (auto simp: quiz_data_def split: option.splits if_splits sum.splits)
  then show ?thesis using qs valid_question_fields by auto
qed

theorem quiz_questions_pass_filter_witness:
  "valid_question five_option_question \<and>
   map_of (case five_option_question of JObject d \<Rightarrow> d | _ \<Rightarrow> []) (ustr ''options'')
     = Some (JArray [JInt 1, JInt 2, JInt 3, JInt 4, JInt 5])"
proof -
  let ?r = "\<lparr> explanation = JArray [fallback_explanation None],
           quiz = [five_option_question, five_option_question, five_option_question,
                   five_option_question, five_option_question],
           quiz_status = Status_success \<rparr>"
  have s: "quiz_status ?r = Status_success" by simp
  show ?thesis
    using quiz_questions_pass_filter [OF process_five_options s]
    by (simp add: five_option_question_def ustr_def)
qed

section \<open>Isolating the content\<close>

lemma py_strip_id:
  assumes "s \<noteq> []" "\<not> py_isspace (hd s)" "\<not> py_isspace (last s)"
  shows "py_strip s = s"
proof -
  have 1: "dropWhile py_isspace s = s" using assms by (cases s) auto
  have "rev (butlast s @ [last s]) = last s # rev (butlast s)" by simp
  then have rs: "rev s = last s # rev (butlast s)" using assms(1) by simp
  have 2: "dropWhile py_isspace (rev s) = rev s" unfolding rs using assms(3) by simp
  show ?thesis by (simp add: py_strip_def 1 2)
qed

lemma endswith_last:
  assumes "endswith s p" "p \<noteq> []"
  shows "last s = last p"
proof -
  from assms have "s = take (length s - length p) s @ p"
    by (metis append_take_drop_id endswith_def)
  then show ?thesis using assms(2) by (metis last_appendR)
qed

lemma py_rfind_last: "py_rfind (xs @ [c]) c = int (length xs)"
  by (simp add: py_rfind_def)

lemma py_find_hd: "py_find (c # xs) c = 0"
  by (simp add: py_find_def)

lemma py_slice_all: "py_slice s 0 (int (length s)) = s"
  by (simp add: py_slice_def)

lemma clean_content_id:
  assumes "\<forall>c \<in> set s. 32 \<le> c \<and> c < 127"
  shows "clean_content s = s"
proof -
  have r: "py_replace a b s = s" if "127 \<le> a" for a b
    unfolding py_replace_def using assms that by (induction s) auto
  have f: "filter (\<lambda>c. \<not> is_control c) s = s"
    using assms by (induction s) (auto simp: is_control_def)
  show ?thesis unfolding clean_content_def Let_def by (simp add: r f)
qed

lemma fence_stripped_id:
  assumes "s = a # m @ [z]" "\<not> py_isspace a" "\<not> py_isspace z" "a \<noteq> 96" "z \<noteq> 96"
  shows "fence_stripped s = s"
proof -
  have st: "py_strip s = s" using assms by (intro py_strip_id) auto
  have ns: "\<not> startswith s backticks" using assms by (auto simp: startswith_def backticks_def)
  have ne: "\<not> endswith s backticks"
    using endswith_last [of s backticks] assms by (auto simp: backticks_def)
  show ?thesis by (simp add: fence_stripped_def st ns ne)
qed

lemma json_content_of_bracketed:
  assumes fs: "fence_stripped t = s" and "s = a # m @ [z]"
    and "a = (if b then 91 else 123)" "z = (if b then 93 else 125)"
  shows "json_content_of t b = Some (clean_content s)"
proof -
  have f: "py_find s a = 0" using assms by (simp add: py_find_hd)
  have "py_rfind ((a # m) @ [z]) z = int (length (a # m))" by (rule py_rfind_last)
  then have r: "py_rfind s z = int (length s) - 1" using assms by simp
  have sl: "py_slice s 0 (int (length s) - 1 + 1) = s" using py_slice_all [of s] by simp
  have len: "0 < length s" using assms(2) by simp
  show ?thesis
    unfolding json_content_of_def Let_def fs assms(3)[symmetric] assms(4)[symmetric]
    using f r sl len by simp
qed

lemma json_content_of_compact:
  assumes "s = a # m @ [z]" "a = (if b then 91 else 123)" "z = (if b then 93 else 125)"
  shows "json_content_of s b = Some (clean_content s)"
proof -
  have "fence_stripped s = s"
    using assms by (intro fence_stripped_id [OF assms(1)]) (auto simp: py_isspace_def)
  then show ?thesis using assms by (rule json_content_of_bracketed)
qed

section \<open>Exceptions that leave the coercer\<close>

lemma takeWhile_digits_replicate:
  "\<not> is_digit y \<Longrightarrow> takeWhile is_digit (replicate n 49 @ y # ys) = replicate n 49"
proof (induction n)
  case (Suc n)
  have "is_digit 49" by (simp add: is_digit_def)
  with Suc show ?case by simp
qed simp

lemma dropWhile_digits_replicate:
  "\<not> is_digit y \<Longrightarrow> dropWhile is_digit (replicate n 49 @ y # ys) = y # ys"
proof (induction n)
  case (Suc n)
  have "is_digit 49" by (simp add: is_digit_def)
  with Suc show ?case by simp
qed simp

lemma match_number_ones:
  "match_number (replicate (Suc n) 49 @ [125]) = Some (replicate (Suc n) 49, [], [], [125])"
  by (simp add: match_number_def match_integer_def match_frac_def match_exp_def
        takeWhile_digits_replicate dropWhile_digits_replicate is_digit_def)

lemma scan_once_ones:
  "int_max_str_digits < Suc n \<Longrightarrow>
     scan_once m k (replicate (Suc n) 49 @ [125]) = Inl ValueError"
  apply (subst scan_once.simps)
  apply (simp only: match_number_ones)
  apply (simp add: parse_int_def)
  done

lemma json_loads_long_int:
  assumes "int_max_str_digits < Suc n"
  shows \<open>json_loads (Suc lim) (ustr ''{"a":'' @ replicate (Suc n) 49 @ [125]) = Inl ValueError\<close>
  using scan_once_ones [OF assms]
  by (simp add: json_loads_def ustr_def startswith_def skip_ws_def json_ws_def
        scan_once_object object_loop.simps del: replicate.simps)

lemma coercer_long_int:
  assumes "int_max_str_digits < Suc n"
  shows \<open>clean_and_parse_json (Suc lim) (ustr ''{"a":'' @ replicate (Suc n) 49 @ [125]) False
           = Inl ValueError\<close>
proof -
  let ?s = \<open>ustr ''{"a":'' @ replicate (Suc n) 49 @ [125]\<close>
  have s: \<open>?s = 123 # (ustr ''"a":'' @ replicate (Suc n) 49) @ [125]\<close>
    by (simp add: ustr_def)
  have c: "clean_content ?s = ?s"
    by (rule clean_content_id) (auto simp: ustr_def)
  have "json_content_of ?s False = Some (clean_content ?s)"
    by (rule json_content_of_compact [OF s]) simp_all
  then show ?thesis
    using json_loads_long_int [OF assms, of lim]
    by (simp add: clean_and_parse_json_steps c parse_with_repair_def del: replicate.simps)
qed

lemma skip_ws_bracket: "skip_ws (91 # xs) = 91 # xs"
  by (simp add: skip_ws_def json_ws_def)

lemma scan_once_too_deep:
  "k < n \<Longrightarrow> scan_once n k (replicate (Suc k) 91 @ rest) = Inl RecursionError"
proof (induction k arbitrary: n)
  case 0
  then show ?case by (simp add: scan_once_array)
next
  case (Suc k)
  then obtain m where n: "n = Suc m" and km: "k < m" by (cases n) auto
  have "scan_once m k (replicate (Suc k) 91 @ rest) = Inl RecursionError"
    using Suc.IH [OF km] .
  then have al: "array_loop m k [] (91 # replicate k 91 @ rest) = Inl RecursionError"
    by (subst array_loop.simps) simp
  show ?case
    unfolding n by (simp add: scan_once_array skip_ws_bracket al)
qed

lemma json_loads_scan_error:
  assumes "\<not> startswith s [65279]" "skip_ws s = s" "scan_once (length s) lim s = Inl e"
  shows "json_loads lim s = Inl e"
  using assms by (simp add: json_loads_def)

lemma coercer_too_deep:
  "clean_and_parse_json lim (replicate (Suc lim) 91 @ replicate (Suc lim) 93) True
     = Inl RecursionError"
proof -
  let ?s = "replicate (Suc lim) 91 @ replicate (Suc lim) 93"
  have s: "?s = 91 # (replicate lim 91 @ replicate lim 93) @ [93]"
    by (simp add: replicate_append_same)
  have c: "clean_content ?s = ?s"
    by (rule clean_content_id) auto
  have j: "json_content_of ?s True = Some (clean_content ?s)"
    by (rule json_content_of_compact [OF s]) simp_all
  have "json_loads lim ?s = Inl RecursionError"
  proof (rule json_loads_scan_error)
    show "\<not> startswith ?s [65279]" by (simp add: startswith_def)
    show "skip_ws ?s = ?s" by (simp add: skip_ws_bracket)
    show "scan_once (length ?s) lim ?s = Inl RecursionError"
      by (rule scan_once_too_deep) simp
  qed
  with j show ?thesis
    by (simp add: clean_and_parse_json_steps c parse_with_repair_def del: replicate.simps)
qed

text \<open>
  Claim C7 says that \<open>clean_and_parse_json\<close> returns a parsed value or \<open>None\<close> for every
  input string and never lets an exception escape. The code catches
  \<open>json.JSONDecodeError\<close> only, and at these three inputs another exception leaves the
  function: a JSON object with an integer of 4301 digits (\<open>int\<close> raises \<open>ValueError\<close> above
  4300 digits), 1001 nested arrays where 1000 are allowed (\<open>RecursionError\<close>), and an
  object text with a lone surrogate (the \<open>print\<close> of the snippet in the handler raises
  \<open>UnicodeEncodeError\<close>).
\<close>

theorem coercer_exceptions_escape:
  \<open>clean_and_parse_json 1000 (ustr ''{"a":'' @ replicate 4301 49 @ ustr ''}'') False
     = Inl ValueError \<and>
   clean_and_parse_json 1000 (replicate 1001 91 @ replicate 1001 93) True = Inl RecursionError \<and>
   clean_and_parse_json 1000 [123, 55296, 125] False = Inl UnicodeEncodeError\<close>
proof -
  have 1: \<open>clean_and_parse_json 1000 (ustr ''{"a":'' @ replicate 4301 49 @ ustr ''}'') False
     = Inl ValueError\<close>
    using coercer_long_int [of 4300 999] by (simp add: int_max_str_digits_def ustr_def)
  have 2: "clean_and_parse_json 1000 (replicate 1001 91 @ replicate 1001 93) True
     = Inl RecursionError"
    using coercer_too_deep [of 1000] by simp
  have 3: "clean_and_parse_json 1000 [123, 55296, 125] False = Inl UnicodeEncodeError"
    by (simp add: py_eval)
  show ?thesis using 1 2 3 by blast
qed

section \<open>Fences, typographic quotes and the repair pass\<close>











section \<open>Text extraction never raises\<close>

text \<open>
  Claim C9: for every file whose name has a supported extension (pdf or txt),
  \<open>extract_text_from_file\<close> returns a string whatever the libraries do: the decoded text
  or the text of the pages, or a diagnostic that starts with \<open>[\<close>; an exception of the
  decoder or of the PDF reader is caught and turned into the bracketed diagnostic that
  carries its message.
\<close>

theorem extract_text_never_raises:
  assumes "allowed_file (filename file)"
  shows "\<exists>text ext.
           extract_text_from_file support decode reader file = Inr text \<and>
           after_last_dot (filename file) = Inr ext \<and>
           (\<forall>e. py_lower ext = ustr ''txt'' \<and> decode (clip_bytes (file_bytes file)) = Inl e \<longrightarrow>
                text = txt_failed (filename file) e \<and> hd text = 91) \<and>
           (\<forall>t. py_lower ext = ustr ''txt'' \<and> decode (clip_bytes (file_bytes file)) = Inr t \<longrightarrow>
                text = t) \<and>
           (\<forall>e. py_lower ext = ustr ''pdf'' \<and> support \<and> reader (file_bytes file) = Inl e \<longrightarrow>
                text = pdf_failed (filename file) e \<and> hd text = 91) \<and>
           (\<forall>pages. py_lower ext = ustr ''pdf'' \<and> support \<and> reader (file_bytes file) = Inr pages \<longrightarrow>
                py_strip text \<noteq> [] \<or> text = no_text_layer (filename file) \<and> hd text = 91) \<and>
           (py_lower ext = ustr ''pdf'' \<and> \<not> support \<longrightarrow> text = no_pdf_support \<and> hd text = 91)"
proof -
  from assms obtain ext where ext: "after_last_dot (filename file) = Inr ext"
    and al: "py_lower ext = ustr ''pdf'' \<or> py_lower ext = ustr ''txt''"
    by (auto simp: allowed_file_def ALLOWED_EXTENSIONS_def split: sum.splits)
  have ne: "ustr ''pdf'' \<noteq> ustr ''txt''" by (simp add: ustr_def)
  show ?thesis
  proof (cases "py_lower ext = ustr ''txt''")
    case True
    show ?thesis
    proof (cases "decode (clip_bytes (file_bytes file))")
      case (Inl e)
      then show ?thesis using ext True
        by (simp add: extract_text_from_file_def clip_bytes_def Let_def txt_failed_def ustr_def)
    next
      case (Inr t)
      then show ?thesis using ext True ne
        by (simp add: extract_text_from_file_def clip_bytes_def Let_def)
    qed
  next
    case False
    with al have pdf: "py_lower ext = ustr ''pdf''" by simp
    show ?thesis
    proof (cases support)
      case False
      then show ?thesis using ext pdf ne
        by (simp add: extract_text_from_file_def Let_def no_pdf_support_def ustr_def)
    next
      case True
      show ?thesis
      proof (cases "reader (file_bytes file)")
        case (Inl e)
        then show ?thesis using ext pdf ne True
          by (simp add: extract_text_from_file_def Let_def pdf_failed_def ustr_def)
      next
        case (Inr pages)
        then show ?thesis using ext pdf ne True
          by (simp add: extract_text_from_file_def Let_def no_text_layer_def ustr_def)
      qed
    qed
  qed
qed

theorem extract_text_never_raises_witness:
  "extract_text_from_file True (\<lambda>b. Inl (ustr ''boom'')) (\<lambda>b. Inl (ustr ''bad xref''))
     \<lparr> filename = ustr ''a.TXT'', file_bytes = [104, 105] \<rparr>
     = Inr (ustr ''[TXT parsing failed for a.TXT. Error: boom]'') \<and>
   extract_text_from_file True (\<lambda>b. Inl (ustr ''boom'')) (\<lambda>b. Inl (ustr ''bad xref''))
     \<lparr> filename = ustr ''b.pdf'', file_bytes = [37, 80] \<rparr>
     = Inr (ustr ''[PDF parsing failed for b.pdf. The file may be corrupt or non-standard. Error: bad xref]'')"
proof -
  let ?d = "\<lambda>b :: nat list. (Inl (ustr ''boom'') :: pystr + pystr)"
  let ?r = "\<lambda>b :: nat list. (Inl (ustr ''bad xref'') :: pystr + (pystr + pystr) list)"
  let ?f = "\<lparr> filename = ustr ''a.TXT'', file_bytes = [104, 105] \<rparr>"
  let ?g = "\<lparr> filename = ustr ''b.pdf'', file_bytes = [37, 80] \<rparr>"
  have a: "allowed_file (filename ?f)" and b: "allowed_file (filename ?g)"
    by (simp_all add: allowed_file_def after_last_dot_def py_lower_def ALLOWED_EXTENSIONS_def ustr_def)
  have ea: "after_last_dot (filename ?f) = Inr (ustr ''TXT'')"
    and eb: "after_last_dot (filename ?g) = Inr (ustr ''pdf'')"
    by (simp_all add: after_last_dot_def ustr_def)
  have la: "py_lower (ustr ''TXT'') = ustr ''txt''" and lb: "py_lower (ustr ''pdf'') = ustr ''pdf''"
    by (simp_all add: py_lower_def ustr_def)
  show ?thesis
    using extract_text_never_raises [OF a, of True ?d ?r]
      extract_text_never_raises [OF b, of True ?d ?r] ea eb la lb
    by (auto simp: txt_failed_def pdf_failed_def ustr_def)
qed

end
